theory Spec2Isabelle
  imports Main "HOL-Library.AList"
begin

text \<open>
  The form builder is one React component, \<open>AddQuestionForm\<close>
  (\<open>src/components/AddQuestionForm.tsx\<close>), with two helpers that keep the list of
  questions in \<open>localStorage\<close>. Each event handler of the component is a function
  from the state before the event to the state after it: the state variables are set as
  the handler sets them, and the effect on \<open>questions\<close> is applied where the handler
  has replaced the list. What the browser provides (\<open>localStorage\<close>, \<open>JSON\<close>,
  \<open>uuidv4\<close>) is modelled or taken as a parameter, as said at each place.
\<close>

section \<open>Data model (AddQuestionForm.tsx, lines 26--39)\<close>

text \<open>
  The two interfaces of the component. An optional property (\<open>numberType?\<close>,
  \<open>helperText?\<close>, ...) is an \<open>option\<close>: \<open>None\<close> is the absent property. JavaScript
  strings are modelled as \<open>string\<close>, one \<open>char\<close> per code unit; the numbers of the
  constraints are carried around and never computed with, and are modelled as integers.
\<close>

datatype numberType = Integer | Decimal

record AdditionalFields =
  af_numberType :: "numberType option"
  af_min :: "int option"
  af_max :: "int option"

record Question =
  q_id :: string
  q_title :: string
  q_type :: string
  q_required :: bool
  q_helperText :: "string option"
  q_additionalFields :: "AdditionalFields option"

text \<open>The object literal \<open>{}\<close> at type \<open>AdditionalFields\<close>.\<close>

definition emptyFields :: AdditionalFields where
  "emptyFields = \<lparr>af_numberType = None, af_min = None, af_max = None\<rparr>"

section \<open>The browser: exceptions, localStorage, JSON\<close>

text \<open>
  \<open>SyntaxError\<close> is thrown by \<open>JSON.parse\<close>, \<open>QuotaExceededError\<close> by
  \<open>localStorage.setItem\<close>. \<open>OutsideModel\<close> is thrown by nothing: it marks a JSON text
  whose value the types of this model cannot hold.
\<close>

datatype js_error = SyntaxError | QuotaExceededError | OutsideModel

text \<open>
  \<open>localStorage\<close> is a list of key/value pairs with a quota on its total size;
  \<open>getItem\<close> returns \<open>null\<close> (\<open>None\<close>) for a missing key, and \<open>setItem\<close> throws
  \<open>QuotaExceededError\<close>, leaving the storage as it was, when the new contents would
  not fit.
\<close>

record storage =
  items :: "(string \<times> string) list"
  quota :: nat

definition storage_size :: "(string \<times> string) list \<Rightarrow> nat" where
  "storage_size kvs = sum_list (map (\<lambda>(k, v). length k + length v) kvs)"

definition getItem :: "string \<Rightarrow> storage \<Rightarrow> string option" where
  "getItem k st = map_of (items st) k"

definition setItem :: "string \<Rightarrow> string \<Rightarrow> storage \<Rightarrow> js_error + storage" where
  "setItem k v st =
     (let items' = AList.update k v (items st)
      in if storage_size items' > quota st then Inl QuotaExceededError
         else Inr (st\<lparr>items := items'\<rparr>))"

text \<open>
  \<open>JSON.stringify\<close> and \<open>JSON.parse\<close> belong to the runtime, not to the repository.
  The component uses them at the type \<open>Question[]\<close>, and the model takes them as a
  parameter of that type; \<open>JSON.parse\<close> throws \<open>SyntaxError\<close> on a text that is not
  JSON.
\<close>

record runtime =
  JSON_stringify :: "Question list \<Rightarrow> string"
  JSON_parse :: "string \<Rightarrow> js_error + Question list"

subsection \<open>An instance of the runtime: JSON over integers and one-byte characters\<close>

text \<open>
  The instance below is used where a concrete runtime is needed. It prints the way
  \<open>JSON.stringify\<close> does (no white space, properties in creation order, absent
  properties left out) and reads the JSON grammar. Two kinds of text leave its
  fragment and are reported as \<open>OutsideModel\<close> without being read further: a number
  with a fraction or an exponent, and a \<open>\u\<close> escape above \<open>00ff\<close>.
\<close>

datatype json =
    JNull
  | JBool bool
  | JNumber int
  | JString string
  | JArray "json list"
  | JObject "(string \<times> json) list"

definition dquote :: char where "dquote = CHR 0x22"
definition bslash :: char where "bslash = CHR 0x5C"

definition digit_char :: "nat \<Rightarrow> char" where
  "digit_char d = char_of (48 + d)"

fun show_nat :: "nat \<Rightarrow> string" where
  "show_nat n = (if n < 10 then [digit_char n] else show_nat (n div 10) @ [digit_char (n mod 10)])"

definition show_int :: "int \<Rightarrow> string" where
  "show_int i = (if i < 0 then CHR ''-'' # show_nat (nat (- i)) else show_nat (nat i))"

definition hex_char :: "nat \<Rightarrow> char" where
  "hex_char d = (if d < 10 then char_of (48 + d) else char_of (87 + d))"

definition escape :: "char \<Rightarrow> string" where
  "escape c =
     (if c = dquote then [bslash, dquote]
      else if c = bslash then [bslash, bslash]
      else if c = CHR 0x08 then [bslash, CHR ''b'']
      else if c = CHR 0x0C then [bslash, CHR ''f'']
      else if c = CHR 0x0A then [bslash, CHR ''n'']
      else if c = CHR 0x0D then [bslash, CHR ''r'']
      else if c = CHR 0x09 then [bslash, CHR ''t'']
      else if (of_char c :: nat) < 32
        then [bslash, CHR ''u'', CHR ''0'', CHR ''0'',
              hex_char (of_char c div 16), hex_char (of_char c mod 16)]
      else [c])"

definition quote :: "string \<Rightarrow> string" where
  "quote s = dquote # concat (map escape s) @ [dquote]"

fun stringify :: "json \<Rightarrow> string"
  and stringify_elements :: "json list \<Rightarrow> string"
  and stringify_members :: "(string \<times> json) list \<Rightarrow> string"
where
  "stringify JNull = ''null''"
| "stringify (JBool b) = (if b then ''true'' else ''false'')"
| "stringify (JNumber i) = show_int i"
| "stringify (JString s) = quote s"
| "stringify (JArray vs) = ''['' @ stringify_elements vs @ '']''"
| "stringify (JObject kvs) = ''{'' @ stringify_members kvs @ ''}''"
| "stringify_elements [] = []"
| "stringify_elements [v] = stringify v"
| "stringify_elements (v # w # vs) = stringify v @ '','' @ stringify_elements (w # vs)"
| "stringify_members [] = []"
| "stringify_members [(k, v)] = quote k @ '':'' @ stringify v"
| "stringify_members ((k, v) # m # kvs) =
     quote k @ '':'' @ stringify v @ '','' @ stringify_members (m # kvs)"

text \<open>A question as the object that \<open>JSON.stringify\<close> sees, and back.\<close>

definition fields_json :: "AdditionalFields \<Rightarrow> json" where
  "fields_json f = JObject
     ((case af_numberType f of
         None \<Rightarrow> []
       | Some Integer \<Rightarrow> [(''numberType'', JString ''integer'')]
       | Some Decimal \<Rightarrow> [(''numberType'', JString ''decimal'')])
      @ (case af_min f of None \<Rightarrow> [] | Some n \<Rightarrow> [(''min'', JNumber n)])
      @ (case af_max f of None \<Rightarrow> [] | Some n \<Rightarrow> [(''max'', JNumber n)]))"

definition question_json :: "Question \<Rightarrow> json" where
  "question_json q = JObject
     ([(''id'', JString (q_id q)), (''title'', JString (q_title q)),
       (''type'', JString (q_type q)), (''required'', JBool (q_required q))]
      @ (case q_helperText q of None \<Rightarrow> [] | Some h \<Rightarrow> [(''helperText'', JString h)])
      @ (case q_additionalFields q of
           None \<Rightarrow> [] | Some f \<Rightarrow> [(''additionalFields'', fields_json f)]))"

definition questions_json :: "Question list \<Rightarrow> json" where
  "questions_json qs = JArray (map question_json qs)"

definition json_numberType :: "json option \<Rightarrow> numberType option option" where
  "json_numberType v =
     (case v of
        None \<Rightarrow> Some None
      | Some (JString s) \<Rightarrow>
          if s = ''integer'' then Some (Some Integer)
          else if s = ''decimal'' then Some (Some Decimal) else None
      | Some _ \<Rightarrow> None)"

definition json_number :: "json option \<Rightarrow> int option option" where
  "json_number v =
     (case v of None \<Rightarrow> Some None | Some (JNumber n) \<Rightarrow> Some (Some n) | Some _ \<Rightarrow> None)"

definition json_fields :: "json option \<Rightarrow> AdditionalFields option option" where
  "json_fields v =
     (case v of
        None \<Rightarrow> Some None
      | Some (JObject kvs) \<Rightarrow>
          (case (json_numberType (map_of kvs ''numberType''),
                 json_number (map_of kvs ''min''), json_number (map_of kvs ''max'')) of
             (Some t, Some lo, Some hi) \<Rightarrow>
               Some (Some \<lparr>af_numberType = t, af_min = lo, af_max = hi\<rparr>)
           | _ \<Rightarrow> None)
      | Some _ \<Rightarrow> None)"

definition json_helperText :: "json option \<Rightarrow> string option option" where
  "json_helperText v =
     (case v of None \<Rightarrow> Some None | Some (JString s) \<Rightarrow> Some (Some s) | Some _ \<Rightarrow> None)"

definition json_question :: "json \<Rightarrow> Question option" where
  "json_question v =
     (case v of
        JObject kvs \<Rightarrow>
          (case (map_of kvs ''id'', map_of kvs ''title'', map_of kvs ''type'',
                 map_of kvs ''required'', json_helperText (map_of kvs ''helperText''),
                 json_fields (map_of kvs ''additionalFields'')) of
             (Some (JString i), Some (JString t), Some (JString ty), Some (JBool r),
              Some h, Some f) \<Rightarrow>
               Some \<lparr>q_id = i, q_title = t, q_type = ty, q_required = r,
                     q_helperText = h, q_additionalFields = f\<rparr>
           | _ \<Rightarrow> None)
      | _ \<Rightarrow> None)"

fun json_question_list :: "json list \<Rightarrow> Question list option" where
  "json_question_list [] = Some []"
| "json_question_list (v # vs) =
     (case json_question v of
        None \<Rightarrow> None
      | Some q \<Rightarrow> (case json_question_list vs of None \<Rightarrow> None | Some qs \<Rightarrow> Some (q # qs)))"

definition json_questions :: "json \<Rightarrow> Question list option" where
  "json_questions v = (case v of JArray vs \<Rightarrow> json_question_list vs | _ \<Rightarrow> None)"

text \<open>The reader. White space is space, tab, line feed and carriage return.\<close>

definition is_ws :: "char \<Rightarrow> bool" where
  "is_ws c = (c = CHR '' '' \<or> c = CHR 0x09 \<or> c = CHR 0x0A \<or> c = CHR 0x0D)"

definition skip_ws :: "string \<Rightarrow> string" where
  "skip_ws s = dropWhile is_ws s"

definition is_digit :: "char \<Rightarrow> bool" where
  "is_digit c = (48 \<le> (of_char c :: nat) \<and> (of_char c :: nat) \<le> 57)"

definition digits_value :: "string \<Rightarrow> nat" where
  "digits_value ds = foldl (\<lambda>a c. 10 * a + (of_char c - 48)) 0 ds"

definition hex_value :: "char \<Rightarrow> nat option" where
  "hex_value c =
     (let n = (of_char c :: nat)
      in if 48 \<le> n \<and> n \<le> 57 then Some (n - 48)
         else if 97 \<le> n \<and> n \<le> 102 then Some (n - 87)
         else if 65 \<le> n \<and> n \<le> 70 then Some (n - 55)
         else None)"

definition unescape :: "char \<Rightarrow> char option" where
  "unescape e =
     (if e = dquote then Some dquote
      else if e = bslash then Some bslash
      else if e = CHR ''/'' then Some (CHR ''/'')
      else if e = CHR ''b'' then Some (CHR 0x08)
      else if e = CHR ''f'' then Some (CHR 0x0C)
      else if e = CHR ''n'' then Some (CHR 0x0A)
      else if e = CHR ''r'' then Some (CHR 0x0D)
      else if e = CHR ''t'' then Some (CHR 0x09)
      else None)"

definition cons_char :: "char \<Rightarrow> js_error + string \<times> string \<Rightarrow> js_error + string \<times> string" where
  "cons_char c r = (case r of Inl e \<Rightarrow> Inl e | Inr (s, rest) \<Rightarrow> Inr (c # s, rest))"

text \<open>The characters of a string, after its opening quote and up to the closing one.\<close>

fun parse_chars :: "string \<Rightarrow> js_error + string \<times> string" where
  "parse_chars [] = Inl SyntaxError"
| "parse_chars (c # cs) =
     (if c = dquote then Inr ([], cs)
      else if c = bslash then
        (case cs of
           [] \<Rightarrow> Inl SyntaxError
         | e # r \<Rightarrow>
             if e = CHR ''u'' then
               (case r of
                  h1 # h2 # h3 # h4 # r' \<Rightarrow>
                    (case (hex_value h1, hex_value h2, hex_value h3, hex_value h4) of
                       (Some a, Some b, Some c, Some d) \<Rightarrow>
                         if a = 0 \<and> b = 0 then cons_char (char_of (16 * c + d)) (parse_chars r')
                         else Inl OutsideModel
                     | _ \<Rightarrow> Inl SyntaxError)
                | _ \<Rightarrow> Inl SyntaxError)
             else
               (case unescape e of
                  None \<Rightarrow> Inl SyntaxError
                | Some c' \<Rightarrow> cons_char c' (parse_chars r)))
      else if (of_char c :: nat) < 32 then Inl SyntaxError
      else cons_char c (parse_chars cs))"

definition parse_digits :: "bool \<Rightarrow> string \<Rightarrow> js_error + json \<times> string" where
  "parse_digits negative s =
     (case s of
        [] \<Rightarrow> Inl SyntaxError
      | c # cs \<Rightarrow>
          if \<not> is_digit c then Inl SyntaxError
          else
            let ds = (if c = CHR ''0'' then [c] else c # takeWhile is_digit cs);
                rest = (if c = CHR ''0'' then cs else dropWhile is_digit cs);
                n = int (digits_value ds)
            in (case rest of
                  [] \<Rightarrow> Inr (JNumber (if negative then - n else n), rest)
                | d # _ \<Rightarrow>
                    if d = CHR ''.'' \<or> d = CHR ''e'' \<or> d = CHR ''E'' then Inl OutsideModel
                    else Inr (JNumber (if negative then - n else n), rest)))"

definition parse_literal :: "string \<Rightarrow> js_error + json \<times> string" where
  "parse_literal s =
     (if take 4 s = ''null'' then Inr (JNull, drop 4 s)
      else if take 4 s = ''true'' then Inr (JBool True, drop 4 s)
      else if take 5 s = ''false'' then Inr (JBool False, drop 5 s)
      else (case s of
              [] \<Rightarrow> Inl SyntaxError
            | c # cs \<Rightarrow> if c = CHR ''-'' then parse_digits True cs else parse_digits False s))"

text \<open>
  An object is built member by member: a repeated key keeps its place and takes the
  later value.
\<close>

definition object_of_members :: "(string \<times> json) list \<Rightarrow> (string \<times> json) list" where
  "object_of_members kvs = foldl (\<lambda>obj kv. AList.update (fst kv) (snd kv) obj) [] kvs"

text \<open>
  Values, the elements of a non-empty array and the members of a non-empty object. The
  first argument bounds the depth of the recursion; \<open>parse_json\<close> starts it above the
  length of the text, and each level of the recursion reads at least one character.
\<close>

fun parse_value :: "nat \<Rightarrow> string \<Rightarrow> js_error + json \<times> string"
  and parse_elements :: "nat \<Rightarrow> string \<Rightarrow> js_error + json list \<times> string"
  and parse_members :: "nat \<Rightarrow> string \<Rightarrow> js_error + (string \<times> json) list \<times> string"
where
  "parse_value 0 s = Inl OutsideModel"
| "parse_value (Suc n) s =
     (case skip_ws s of
        [] \<Rightarrow> Inl SyntaxError
      | c # cs \<Rightarrow>
          if c = CHR ''['' then
            (case skip_ws cs of
               [] \<Rightarrow> Inl SyntaxError
             | d # ds \<Rightarrow>
                 if d = CHR '']'' then Inr (JArray [], ds)
                 else (case parse_elements n cs of
                         Inl e \<Rightarrow> Inl e
                       | Inr (vs, rest) \<Rightarrow> Inr (JArray vs, rest)))
          else if c = CHR ''{'' then
            (case skip_ws cs of
               [] \<Rightarrow> Inl SyntaxError
             | d # ds \<Rightarrow>
                 if d = CHR ''}'' then Inr (JObject [], ds)
                 else (case parse_members n cs of
                         Inl e \<Rightarrow> Inl e
                       | Inr (kvs, rest) \<Rightarrow> Inr (JObject (object_of_members kvs), rest)))
          else if c = dquote then
            (case parse_chars cs of
               Inl e \<Rightarrow> Inl e
             | Inr (str, rest) \<Rightarrow> Inr (JString str, rest))
          else parse_literal (c # cs))"
| "parse_elements 0 s = Inl OutsideModel"
| "parse_elements (Suc n) s =
     (case parse_value n s of
        Inl e \<Rightarrow> Inl e
      | Inr (v, rest) \<Rightarrow>
          (case skip_ws rest of
             [] \<Rightarrow> Inl SyntaxError
           | c # cs \<Rightarrow>
               if c = CHR '']'' then Inr ([v], cs)
               else if c = CHR '','' then
                 (case parse_elements n cs of
                    Inl e \<Rightarrow> Inl e
                  | Inr (vs, rest') \<Rightarrow> Inr (v # vs, rest'))
               else Inl SyntaxError))"
| "parse_members 0 s = Inl OutsideModel"
| "parse_members (Suc n) s =
     (case skip_ws s of
        [] \<Rightarrow> Inl SyntaxError
      | q # s1 \<Rightarrow>
          if q \<noteq> dquote then Inl SyntaxError
          else
            (case parse_chars s1 of
               Inl e \<Rightarrow> Inl e
             | Inr (k, s2) \<Rightarrow>
                 (case skip_ws s2 of
                    [] \<Rightarrow> Inl SyntaxError
                  | colon # s3 \<Rightarrow>
                      if colon \<noteq> CHR '':'' then Inl SyntaxError
                      else
                        (case parse_value n s3 of
                           Inl e \<Rightarrow> Inl e
                         | Inr (v, s4) \<Rightarrow>
                             (case skip_ws s4 of
                                [] \<Rightarrow> Inl SyntaxError
                              | c # cs \<Rightarrow>
                                  if c = CHR ''}'' then Inr ([(k, v)], cs)
                                  else if c = CHR '','' then
                                    (case parse_members n cs of
                                       Inl e \<Rightarrow> Inl e
                                     | Inr (kvs, rest) \<Rightarrow> Inr ((k, v) # kvs, rest))
                                  else Inl SyntaxError)))))"

definition parse_json :: "string \<Rightarrow> js_error + json" where
  "parse_json s =
     (case parse_value (Suc (length s)) s of
        Inl e \<Rightarrow> Inl e
      | Inr (v, rest) \<Rightarrow> if skip_ws rest = [] then Inr v else Inl SyntaxError)"

definition browserJSON :: runtime where
  "browserJSON =
     \<lparr>JSON_stringify = (\<lambda>qs. stringify (questions_json qs)),
      JSON_parse = (\<lambda>s. case parse_json s of
                           Inl e \<Rightarrow> Inl e
                         | Inr v \<Rightarrow> (case json_questions v of
                                       None \<Rightarrow> Inl OutsideModel
                                     | Some qs \<Rightarrow> Inr qs))\<rparr>"

text \<open>
  For the proof that the reader inverts the printer: what may follow a printed value,
  what may start one, the values whose objects repeat no key, and the depth of the
  recursion that reading a printed value takes.
\<close>

definition ok_rest :: "string \<Rightarrow> bool" where
  "ok_rest rest = (case rest of [] \<Rightarrow> True | c # _ \<Rightarrow> c = CHR '','' \<or> c = CHR '']'' \<or> c = CHR ''}'')"

definition value_start :: "char \<Rightarrow> bool" where
  "value_start c = (\<not> is_ws c \<and> c \<noteq> CHR '']'' \<and> c \<noteq> CHR ''}'' \<and> c \<noteq> CHR '','')"

fun distinct_keys :: "json \<Rightarrow> bool"
  and distinct_keys_elements :: "json list \<Rightarrow> bool"
  and distinct_keys_members :: "(string \<times> json) list \<Rightarrow> bool"
where
  "distinct_keys JNull = True"
| "distinct_keys (JBool b) = True"
| "distinct_keys (JNumber i) = True"
| "distinct_keys (JString s) = True"
| "distinct_keys (JArray vs) = distinct_keys_elements vs"
| "distinct_keys (JObject kvs) = (distinct (map fst kvs) \<and> distinct_keys_members kvs)"
| "distinct_keys_elements [] = True"
| "distinct_keys_elements (v # vs) = (distinct_keys v \<and> distinct_keys_elements vs)"
| "distinct_keys_members [] = True"
| "distinct_keys_members ((k, v) # kvs) = (distinct_keys v \<and> distinct_keys_members kvs)"

fun nesting :: "json \<Rightarrow> nat"
  and nesting_elements :: "json list \<Rightarrow> nat"
  and nesting_members :: "(string \<times> json) list \<Rightarrow> nat"
where
  "nesting JNull = 1"
| "nesting (JBool b) = 1"
| "nesting (JNumber i) = 1"
| "nesting (JString s) = 1"
| "nesting (JArray vs) = Suc (nesting_elements vs)"
| "nesting (JObject kvs) = Suc (nesting_members kvs)"
| "nesting_elements [] = 0"
| "nesting_elements (v # vs) = Suc (max (nesting v) (nesting_elements vs))"
| "nesting_members [] = 0"
| "nesting_members ((k, v) # kvs) = Suc (max (nesting v) (nesting_members kvs))"

section \<open>The persistence helpers (lines 41--55)\<close>

text \<open>
  \<open>saveToLocalStorage\<close> runs \<open>setItem\<close> inside the promise executor, that is
  synchronously; \<open>Inl e\<close> is the promise rejected with \<open>e\<close>, \<open>Inr st\<close> the promise
  resolved, with the storage the write has produced.
\<close>

definition saveToLocalStorage :: "runtime \<Rightarrow> Question list \<Rightarrow> storage \<Rightarrow> js_error + storage" where
  "saveToLocalStorage rt qs st = setItem ''questions'' (JSON_stringify rt qs) st"

text \<open>
  \<open>savedQuestions ? JSON.parse(savedQuestions) : []\<close>: \<open>null\<close> and the empty string are
  the falsy values of a \<open>string | null\<close>. There is no \<open>try\<close> around \<open>JSON.parse\<close>.
\<close>

definition loadFromLocalStorage :: "runtime \<Rightarrow> storage \<Rightarrow> js_error + Question list" where
  "loadFromLocalStorage rt st =
     (case getItem ''questions'' st of
        None \<Rightarrow> Inr []
      | Some savedQuestions \<Rightarrow>
          if savedQuestions = [] then Inr [] else JSON_parse rt savedQuestions)"

section \<open>The component (lines 57--158)\<close>

text \<open>
  One record holds the state variables of \<open>AddQuestionForm\<close> (the \<open>useState\<close> hooks of
  lines 58--68) together with the storage of the browser tab and the errors of the
  promises that were rejected with no handler attached.
\<close>

record app =
  questions :: "Question list"
  questionTitle :: string
  questionType :: string
  isRequired :: bool
  helperText :: string
  additionalFields :: AdditionalFields
  showForm :: bool
  loading :: bool
  error :: "string option"
  successMessage :: "string option"
  expanded :: "string option"
  localStorage :: storage
  rejections :: "js_error list"

text \<open>
  \<open>String.prototype.trim\<close> takes white space and line terminators off both ends;
  among the one-byte characters these are tab, line feed, vertical tab, form feed,
  carriage return, space and no-break space.
\<close>

definition isWhiteSpace :: "char \<Rightarrow> bool" where
  "isWhiteSpace c = (of_char c \<in> {9, 10, 11, 12, 13, 32, 160 :: nat})"

definition trim :: "string \<Rightarrow> string" where
  "trim s = rev (dropWhile isWhiteSpace (rev (dropWhile isWhiteSpace s)))"

text \<open>Truthiness of a \<open>string | null\<close>.\<close>

definition truthy :: "string option \<Rightarrow> bool" where
  "truthy v = (case v of None \<Rightarrow> False | Some s \<Rightarrow> s \<noteq> [])"

text \<open>
  The effect of lines 149--158 runs after each render in which \<open>questions\<close> is a new
  array: with no question left it resets the buffer and \<open>expanded\<close>.
\<close>

definition questionsEffect :: "app \<Rightarrow> app" where
  "questionsEffect a =
     (if length (questions a) = 0
      then a\<lparr>questionTitle := [], questionType := [], isRequired := False,
             helperText := [], additionalFields := emptyFields, expanded := None\<rparr>
      else a)"

text \<open>
  Both callers of \<open>saveToLocalStorage\<close> drop the promise it returns: a resolved one has
  written the storage, a rejected one is an unhandled rejection and nothing else.
\<close>

definition dropPromise :: "js_error + storage \<Rightarrow> app \<Rightarrow> app" where
  "dropPromise p a =
     (case p of
        Inl e \<Rightarrow> a\<lparr>rejections := rejections a @ [e]\<rparr>
      | Inr st \<Rightarrow> a\<lparr>localStorage := st\<rparr>)"

definition handleAddQuestionClick :: "app \<Rightarrow> app" where
  "handleAddQuestionClick a =
     (if length (questions a) \<noteq> 0 \<or> \<not> truthy (error a)
      then a\<lparr>questionTitle := [], questionType := [], isRequired := False,
             helperText := [], additionalFields := emptyFields,
             showForm := True, expanded := None\<rparr>
      else a)"

definition handleDeleteQuestion :: "runtime \<Rightarrow> string \<Rightarrow> app \<Rightarrow> app" where
  "handleDeleteQuestion rt i a =
     (let updatedQuestions = filter (\<lambda>q. q_id q \<noteq> i) (questions a)
      in questionsEffect
           (dropPromise (saveToLocalStorage rt updatedQuestions (localStorage a))
              (a\<lparr>questions := updatedQuestions\<rparr>)))"

text \<open>
  \<open>handleSaveChanges\<close>; \<open>uuid\<close> is the value that \<open>uuidv4()\<close> returns in this call.
  The handler reads the state of the render it was created in, so the \<open>questions\<close>
  of line 127 is the list before \<open>setQuestions\<close>.
\<close>

definition newQuestion :: "string \<Rightarrow> app \<Rightarrow> Question" where
  "newQuestion uuid a =
     \<lparr>q_id = uuid, q_title = questionTitle a, q_type = questionType a,
      q_required = isRequired a, q_helperText = Some (helperText a),
      q_additionalFields = Some (additionalFields a)\<rparr>"

definition updateQuestion :: "app \<Rightarrow> Question \<Rightarrow> Question" where
  "updateQuestion a q =
     q\<lparr>q_title := questionTitle a, q_type := questionType a,
       q_required := isRequired a, q_helperText := Some (helperText a),
       q_additionalFields := Some (additionalFields a)\<rparr>"

definition handleSaveChanges :: "runtime \<Rightarrow> string \<Rightarrow> app \<Rightarrow> app" where
  "handleSaveChanges rt uuid a =
     (if trim (questionTitle a) = [] \<or> trim (questionType a) = []
      then a\<lparr>error := Some ''Please fill in all required fields.''\<rparr>
      else
        let a1 = (case expanded a of
                    None \<Rightarrow>
                      a\<lparr>questions := questions a @ [newQuestion uuid a],
                        successMessage := Some ''Question added successfully.''\<rparr>
                  | Some i \<Rightarrow>
                      a\<lparr>questions :=
                          map (\<lambda>q. if q_id q = i then updateQuestion a q else q) (questions a),
                        successMessage := Some ''Question updated successfully.''\<rparr>);
            a2 = dropPromise (saveToLocalStorage rt (questions a) (localStorage a)) a1
        in questionsEffect (a2\<lparr>showForm := False, expanded := None\<rparr>))"

text \<open>
  \<open>handleAccordionChange(id)(event, isExpanded)\<close>: expanding loads the question into the
  buffer, collapsing saves.
\<close>

definition handleAccordionChange :: "runtime \<Rightarrow> string \<Rightarrow> string \<Rightarrow> bool \<Rightarrow> app \<Rightarrow> app" where
  "handleAccordionChange rt uuid i isExpanded a =
     (if isExpanded
      then (case find (\<lambda>q. q_id q = i) (questions a) of
              None \<Rightarrow> a\<lparr>expanded := Some i\<rparr>
            | Some questionToEdit \<Rightarrow>
                a\<lparr>expanded := Some i,
                  questionTitle := q_title questionToEdit,
                  questionType := q_type questionToEdit,
                  isRequired := q_required questionToEdit,
                  helperText := (case q_helperText questionToEdit of
                                   None \<Rightarrow> [] | Some h \<Rightarrow> h),
                  additionalFields := (case q_additionalFields questionToEdit of
                                         None \<Rightarrow> emptyFields | Some f \<Rightarrow> f),
                  showForm := False\<rparr>)
      else handleSaveChanges rt uuid a)"

text \<open>
  The first render: the initial value of \<open>questions\<close> is \<open>loadFromLocalStorage()\<close>
  (line 58), whose exception is the exception of the render; the effect runs once after
  mounting.
\<close>

definition initialState :: "Question list \<Rightarrow> storage \<Rightarrow> app" where
  "initialState qs st =
     \<lparr>questions = qs, questionTitle = [], questionType = [], isRequired = False,
      helperText = [], additionalFields = emptyFields, showForm = False, loading = False,
      error = None, successMessage = None, expanded = None,
      localStorage = st, rejections = []\<rparr>"

definition AddQuestionForm :: "runtime \<Rightarrow> storage \<Rightarrow> js_error + app" where
  "AddQuestionForm rt st =
     (case loadFromLocalStorage rt st of
        Inl e \<Rightarrow> Inl e
      | Inr qs \<Rightarrow> Inr (questionsEffect (initialState qs st)))"

section \<open>Sequences of commits\<close>

text \<open>
  What the user has put into the state variables by the time a commit runs (which
  accordion is open, the fields of the buffer), and the identifier that \<open>uuidv4()\<close>
  hands out during that commit.
\<close>

record edit =
  e_target :: "string option"
  e_title :: string
  e_type :: string
  e_required :: bool
  e_helperText :: string
  e_additionalFields :: AdditionalFields
  e_uuid :: string

definition validEdit :: "edit \<Rightarrow> bool" where
  "validEdit e = (trim (e_title e) \<noteq> [] \<and> trim (e_type e) \<noteq> [])"

definition enterEdit :: "edit \<Rightarrow> app \<Rightarrow> app" where
  "enterEdit e a =
     a\<lparr>expanded := e_target e, questionTitle := e_title e, questionType := e_type e,
       isRequired := e_required e, helperText := e_helperText e,
       additionalFields := e_additionalFields e\<rparr>"

definition commitEdit :: "runtime \<Rightarrow> edit \<Rightarrow> app \<Rightarrow> app" where
  "commitEdit rt e a = handleSaveChanges rt (e_uuid e) (enterEdit e a)"

definition commitEdits :: "runtime \<Rightarrow> edit list \<Rightarrow> app \<Rightarrow> app" where
  "commitEdits rt es a = foldl (\<lambda>a' e. commitEdit rt e a') a es"

definition newIds :: "edit list \<Rightarrow> string list" where
  "newIds es = map e_uuid (filter (\<lambda>e. e_target e = None) es)"

section \<open>Sample states\<close>

definition emptyStore :: storage where
  "emptyStore = \<lparr>items = [], quota = 5000\<rparr>"

definition fullStore :: storage where
  "fullStore = \<lparr>items = [], quota = 0\<rparr>"

definition corruptStore :: storage where
  "corruptStore = \<lparr>items = [(''questions'', ''{'')], quota = 5000\<rparr>"

definition nameQuestion :: Question where
  "nameQuestion =
     \<lparr>q_id = ''X'', q_title = ''Name'', q_type = ''text'', q_required = False,
      q_helperText = Some [], q_additionalFields = Some emptyFields\<rparr>"

definition ageQuestion :: Question where
  "ageQuestion =
     \<lparr>q_id = ''Y'', q_title = ''Age'', q_type = ''number'', q_required = True,
      q_helperText = Some ''in years'',
      q_additionalFields =
        Some \<lparr>af_numberType = Some Integer, af_min = Some 0, af_max = Some 10\<rparr>\<rparr>"

text \<open>The new-question form filled in with title \<open>Name\<close> and type \<open>text\<close>.\<close>

definition typingName :: "Question list \<Rightarrow> storage \<Rightarrow> app" where
  "typingName qs st =
     (initialState qs st)\<lparr>questionTitle := ''Name'', questionType := ''text'', showForm := True\<rparr>"

text \<open>The accordion of question \<open>i\<close> open, with the title changed to \<open>Full name\<close>.\<close>

definition editingName :: "string \<Rightarrow> Question list \<Rightarrow> storage \<Rightarrow> app" where
  "editingName i qs st =
     (initialState qs st)\<lparr>questionTitle := ''Full name'', questionType := ''text'',
                            expanded := Some i\<rparr>"

definition addName :: edit where
  "addName = \<lparr>e_target = None, e_title = ''Name'', e_type = ''text'', e_required = False,
              e_helperText = [], e_additionalFields = emptyFields, e_uuid = ''X''\<rparr>"

definition requireName :: edit where
  "requireName = \<lparr>e_target = Some ''X'', e_title = ''Name'', e_type = ''text'',
                  e_required = True, e_helperText = [], e_additionalFields = emptyFields,
                  e_uuid = ''Z''\<rparr>"

section \<open>Facts about the effect and the dropped promise\<close>

lemma questionsEffect_questions [simp]: "questions (questionsEffect a) = questions a"
  by (simp add: questionsEffect_def)

lemma questionsEffect_localStorage [simp]: "localStorage (questionsEffect a) = localStorage a"
  by (simp add: questionsEffect_def)

lemma questionsEffect_fields [simp]:
  "showForm (questionsEffect a) = showForm a"
  "error (questionsEffect a) = error a"
  "successMessage (questionsEffect a) = successMessage a"
  "rejections (questionsEffect a) = rejections a"
  "loading (questionsEffect a) = loading a"
  by (simp_all add: questionsEffect_def)

lemma questionsEffect_expanded:
  "expanded (questionsEffect a) = (if questions a = [] then None else expanded a)"
  by (simp add: questionsEffect_def)

lemma questionsEffect_idem [simp]: "questionsEffect (questionsEffect a) = questionsEffect a"
  by (simp add: questionsEffect_def)

lemma dropPromise_fields [simp]:
  "questions (dropPromise p a) = questions a"
  "showForm (dropPromise p a) = showForm a"
  "error (dropPromise p a) = error a"
  "successMessage (dropPromise p a) = successMessage a"
  "expanded (dropPromise p a) = expanded a"
  "questionTitle (dropPromise p a) = questionTitle a"
  "questionType (dropPromise p a) = questionType a"
  "isRequired (dropPromise p a) = isRequired a"
  "helperText (dropPromise p a) = helperText a"
  "additionalFields (dropPromise p a) = additionalFields a"
  by (simp_all add: dropPromise_def split: sum.splits)

lemma dropPromise_localStorage:
  "localStorage (dropPromise p a) = (case p of Inl e \<Rightarrow> localStorage a | Inr st \<Rightarrow> st)"
  by (simp add: dropPromise_def split: sum.splits)

lemma dropPromise_rejections:
  "rejections (dropPromise p a) = (case p of Inl e \<Rightarrow> rejections a @ [e] | Inr st \<Rightarrow> rejections a)"
  by (simp add: dropPromise_def split: sum.splits)

lemma q_id_updateQuestion [simp]: "q_id (updateQuestion a q) = q_id q"
  by (simp add: updateQuestion_def)

lemma handleSaveChanges_questions:
  assumes "trim (questionTitle a) \<noteq> []" "trim (questionType a) \<noteq> []"
  shows "questions (handleSaveChanges rt uuid a) =
           (case expanded a of
              None \<Rightarrow> questions a @ [newQuestion uuid a]
            | Some i \<Rightarrow> map (\<lambda>q. if q_id q = i then updateQuestion a q else q) (questions a))"
  using assms by (simp add: handleSaveChanges_def Let_def split: option.splits)

lemma handleSaveChanges_promise:
  assumes "trim (questionTitle a) \<noteq> []" "trim (questionType a) \<noteq> []"
  shows "localStorage (handleSaveChanges rt uuid a) =
           (case saveToLocalStorage rt (questions a) (localStorage a) of
              Inl e \<Rightarrow> localStorage a | Inr st \<Rightarrow> st)"
    and "rejections (handleSaveChanges rt uuid a) =
           (case saveToLocalStorage rt (questions a) (localStorage a) of
              Inl e \<Rightarrow> rejections a @ [e] | Inr st \<Rightarrow> rejections a)"
  using assms
  by (simp_all add: handleSaveChanges_def Let_def dropPromise_localStorage dropPromise_rejections
      split: option.splits sum.splits)

lemma handleSaveChanges_closed:
  assumes "trim (questionTitle a) \<noteq> []" "trim (questionType a) \<noteq> []"
  shows "showForm (handleSaveChanges rt uuid a) = False"
    and "expanded (handleSaveChanges rt uuid a) = None"
    and "error (handleSaveChanges rt uuid a) = error a"
    and "successMessage (handleSaveChanges rt uuid a) =
           Some (if expanded a = None then ''Question added successfully.''
                 else ''Question updated successfully.'')"
  using assms
  by (simp_all add: handleSaveChanges_def Let_def questionsEffect_expanded split: option.splits)

lemma getItem_setItem:
  "setItem k v st = Inr st' \<Longrightarrow> getItem k' st' = (if k' = k then Some v else getItem k' st)"
  by (auto simp: setItem_def getItem_def Let_def update_conv' split: if_splits)

lemma map_unchanged:
  "i \<notin> q_id ` set qs \<Longrightarrow> map (\<lambda>q. if q_id q = i then f q else q) qs = qs"
  by (induction qs) auto

text \<open>
  What a successful commit leaves in the store, when the write is accepted, is the text
  of the list before the commit.
\<close>

lemma handleSaveChanges_writes_previous_list:
  assumes "trim (questionTitle a) \<noteq> []" "trim (questionType a) \<noteq> []"
    and "saveToLocalStorage rt (questions a) (localStorage a) = Inr st"
  shows "getItem ''questions'' (localStorage (handleSaveChanges rt uuid a))
           = Some (JSON_stringify rt (questions a))"
  using assms
  by (simp add: handleSaveChanges_promise saveToLocalStorage_def getItem_setItem)

lemma handleDeleteQuestion_questions:
  "questions (handleDeleteQuestion rt i a) = filter (\<lambda>q. q_id q \<noteq> i) (questions a)"
  by (simp add: handleDeleteQuestion_def Let_def)

section \<open>Validation failure\<close>

text \<open>
  C3. When the title or the type of the buffer is empty after trimming,
  \<open>handleSaveChanges\<close> sets the error message and changes nothing else: the questions,
  \<open>expanded\<close>, \<open>showForm\<close> and the buffer stay, the storage is not written and no
  promise is created.
\<close>

theorem commitEdit_invalid:
  assumes "trim (questionTitle a) = [] \<or> trim (questionType a) = []"
  shows "handleSaveChanges rt uuid a = a\<lparr>error := Some ''Please fill in all required fields.''\<rparr>
       \<and> error (handleSaveChanges rt uuid a) \<noteq> None
       \<and> questions (handleSaveChanges rt uuid a) = questions a
       \<and> expanded (handleSaveChanges rt uuid a) = expanded a
       \<and> showForm (handleSaveChanges rt uuid a) = showForm a
       \<and> localStorage (handleSaveChanges rt uuid a) = localStorage a
       \<and> rejections (handleSaveChanges rt uuid a) = rejections a"
  using assms by (auto simp: handleSaveChanges_def)

theorem commitEdit_invalid_witness:
  "trim (questionType ((initialState [nameQuestion] emptyStore)\<lparr>questionTitle := ''Age''\<rparr>)) = []
   \<and> error (handleSaveChanges browserJSON ''Z''
         ((initialState [nameQuestion] emptyStore)\<lparr>questionTitle := ''Age''\<rparr>))
       = Some ''Please fill in all required fields.''
   \<and> questions (handleSaveChanges browserJSON ''Z''
         ((initialState [nameQuestion] emptyStore)\<lparr>questionTitle := ''Age''\<rparr>)) = [nameQuestion]
   \<and> localStorage (handleSaveChanges browserJSON ''Z''
         ((initialState [nameQuestion] emptyStore)\<lparr>questionTitle := ''Age''\<rparr>)) = emptyStore"
proof -
  let ?a = "(initialState [nameQuestion] emptyStore)\<lparr>questionTitle := ''Age''\<rparr>"
  have h: "trim (questionType ?a) = []" by code_simp
  then have "trim (questionTitle ?a) = [] \<or> trim (questionType ?a) = []" by simp
  from commitEdit_invalid [OF this, of browserJSON "''Z''"] h show ?thesis
    by (simp add: initialState_def)
qed

section \<open>Updating a question that is not in the list\<close>

text \<open>
  C10. When \<open>expanded\<close> holds an id that no question of the list has and the buffer is
  valid, \<open>handleSaveChanges\<close> leaves the list as it is, and still sets the success
  message, closes the form and clears \<open>expanded\<close>; no error is set.
\<close>

theorem commitEdit_missing_target:
  assumes "expanded a = Some i" and "i \<notin> q_id ` set (questions a)"
    and "trim (questionTitle a) \<noteq> []" and "trim (questionType a) \<noteq> []"
  shows "questions (handleSaveChanges rt uuid a) = questions a
       \<and> successMessage (handleSaveChanges rt uuid a) = Some ''Question updated successfully.''
       \<and> error (handleSaveChanges rt uuid a) = error a
       \<and> showForm (handleSaveChanges rt uuid a) = False
       \<and> expanded (handleSaveChanges rt uuid a) = None"
  using assms
  by (simp add: handleSaveChanges_questions handleSaveChanges_closed map_unchanged)

theorem commitEdit_missing_target_witness:
  "expanded (editingName ''Q'' [nameQuestion, ageQuestion] emptyStore) = Some ''Q''
   \<and> ''Q'' \<notin> q_id ` set (questions (editingName ''Q'' [nameQuestion, ageQuestion] emptyStore))
   \<and> trim (questionTitle (editingName ''Q'' [nameQuestion, ageQuestion] emptyStore)) \<noteq> []
   \<and> trim (questionType (editingName ''Q'' [nameQuestion, ageQuestion] emptyStore)) \<noteq> []
   \<and> questions (handleSaveChanges browserJSON ''Z'' (editingName ''Q'' [nameQuestion, ageQuestion] emptyStore))
       = [nameQuestion, ageQuestion]
   \<and> successMessage (handleSaveChanges browserJSON ''Z'' (editingName ''Q'' [nameQuestion, ageQuestion] emptyStore))
       = Some ''Question updated successfully.''
   \<and> expanded (handleSaveChanges browserJSON ''Z'' (editingName ''Q'' [nameQuestion, ageQuestion] emptyStore)) = None"
proof -
  let ?a = "editingName ''Q'' [nameQuestion, ageQuestion] emptyStore"
  have h1: "expanded ?a = Some ''Q''" by (simp add: editingName_def initialState_def)
  have h2: "''Q'' \<notin> q_id ` set (questions ?a)"
    by (simp add: editingName_def initialState_def nameQuestion_def ageQuestion_def)
  have h3: "trim (questionTitle ?a) \<noteq> []" by code_simp
  have h4: "trim (questionType ?a) \<noteq> []" by code_simp
  have q: "questions ?a = [nameQuestion, ageQuestion]" by (simp add: editingName_def initialState_def)
  show ?thesis
    using commitEdit_missing_target [OF h1 h2 h3 h4, of browserJSON "''Z''"] h1 h2 h3 h4 q by simp
qed

section \<open>What a successful commit writes\<close>

text \<open>
  C1. A successful commit is to write the resulting list to the store. Line 127 passes
  \<open>questions\<close>, the list of the render the handler belongs to, and not the list given to
  \<open>setQuestions\<close>: adding the first question \<open>Name\<close> to an empty list leaves the
  question in memory and the text of the empty list in the store, so that the next
  \<open>loadFromLocalStorage\<close> returns no question. The success message is set and
  \<open>expanded\<close> is cleared.
\<close>

theorem commitEdit_persists_stale_list:
  "questions (handleSaveChanges browserJSON ''X'' (typingName [] emptyStore)) = [nameQuestion]
   \<and> getItem ''questions'' (localStorage (handleSaveChanges browserJSON ''X'' (typingName [] emptyStore)))
       = Some (JSON_stringify browserJSON [])
   \<and> JSON_stringify browserJSON [] = ''[]''
   \<and> loadFromLocalStorage browserJSON
         (localStorage (handleSaveChanges browserJSON ''X'' (typingName [] emptyStore))) = Inr []
   \<and> successMessage (handleSaveChanges browserJSON ''X'' (typingName [] emptyStore))
       = Some ''Question added successfully.''
   \<and> expanded (handleSaveChanges browserJSON ''X'' (typingName [] emptyStore)) = None"
  by code_simp

section \<open>Starting a new question\<close>

text \<open>
  With no question in the list and an error message showing, \<open>handleAddQuestionClick\<close>
  does nothing: the title typed before stays in the buffer and \<open>showForm\<close> stays off.
\<close>

theorem startNewQuestion_blocked_counterexample:
  "questionTitle (handleAddQuestionClick
      (handleSaveChanges browserJSON ''X'' ((initialState [] emptyStore)\<lparr>questionTitle := ''Name''\<rparr>)))
     = ''Name''
   \<and> showForm (handleAddQuestionClick
      (handleSaveChanges browserJSON ''X'' ((initialState [] emptyStore)\<lparr>questionTitle := ''Name''\<rparr>)))
     = False"
  by code_simp

text \<open>
  C7, as the code has it. From every state with a question in the list or no error message
  showing, \<open>handleAddQuestionClick\<close> empties the buffer (title, type, helper text and
  constraints empty, required off), clears \<open>expanded\<close> and turns \<open>showForm\<close> on; from
  the other states it changes nothing. In every state it leaves the list of questions
  and the storage as they are.
\<close>

theorem startNewQuestion_guarded:
  "(questions a \<noteq> [] \<or> \<not> truthy (error a) \<longrightarrow>
      questionTitle (handleAddQuestionClick a) = []
    \<and> questionType (handleAddQuestionClick a) = []
    \<and> isRequired (handleAddQuestionClick a) = False
    \<and> helperText (handleAddQuestionClick a) = []
    \<and> additionalFields (handleAddQuestionClick a) = emptyFields
    \<and> expanded (handleAddQuestionClick a) = None
    \<and> showForm (handleAddQuestionClick a) = True)
   \<and> (questions a = [] \<and> truthy (error a) \<longrightarrow> handleAddQuestionClick a = a)
   \<and> questions (handleAddQuestionClick a) = questions a
   \<and> localStorage (handleAddQuestionClick a) = localStorage a"
  by (simp add: handleAddQuestionClick_def)

theorem startNewQuestion_guarded_witness:
  "questions (editingName ''X'' [nameQuestion] emptyStore) \<noteq> []
   \<and> questionTitle (handleAddQuestionClick (editingName ''X'' [nameQuestion] emptyStore)) = []
   \<and> questionType (handleAddQuestionClick (editingName ''X'' [nameQuestion] emptyStore)) = []
   \<and> expanded (handleAddQuestionClick (editingName ''X'' [nameQuestion] emptyStore)) = None
   \<and> showForm (handleAddQuestionClick (editingName ''X'' [nameQuestion] emptyStore)) = True
   \<and> questions (handleAddQuestionClick (editingName ''X'' [nameQuestion] emptyStore)) = [nameQuestion]
   \<and> localStorage (handleAddQuestionClick (editingName ''X'' [nameQuestion] emptyStore)) = emptyStore"
proof -
  let ?a = "editingName ''X'' [nameQuestion] emptyStore"
  have h: "questions ?a \<noteq> []" by (simp add: editingName_def initialState_def)
  from startNewQuestion_guarded [of ?a] h show ?thesis
    by (simp add: editingName_def initialState_def)
qed

section \<open>Deleting the question that is being edited\<close>

text \<open>
  With two questions in the list and the accordion of the first one open, deleting the
  first one leaves its id in \<open>expanded\<close> and its fields in the buffer.
\<close>

theorem delete_active_counterexample:
  "expanded (editingName ''X'' [nameQuestion, ageQuestion] emptyStore) = Some ''X''
   \<and> expanded (handleDeleteQuestion browserJSON ''X''
        (editingName ''X'' [nameQuestion, ageQuestion] emptyStore)) = Some ''X''
   \<and> questionTitle (handleDeleteQuestion browserJSON ''X''
        (editingName ''X'' [nameQuestion, ageQuestion] emptyStore)) = ''Full name''"
  by code_simp

text \<open>
  C6, as the code has it. When \<open>expanded\<close> holds the id that is deleted, \<open>expanded\<close> is
  cleared exactly when the deletion leaves no question in the list, and then the buffer
  is reset as well; in every case no question that remains in the list has the id held
  in \<open>expanded\<close>, so that no accordion of a question is open.
\<close>

theorem delete_active:
  assumes "expanded a = Some i"
  shows "(expanded (handleDeleteQuestion rt i a) = None
            \<longleftrightarrow> questions (handleDeleteQuestion rt i a) = [])
       \<and> (questions (handleDeleteQuestion rt i a) = [] \<longrightarrow>
            questionTitle (handleDeleteQuestion rt i a) = []
          \<and> questionType (handleDeleteQuestion rt i a) = []
          \<and> isRequired (handleDeleteQuestion rt i a) = False
          \<and> helperText (handleDeleteQuestion rt i a) = []
          \<and> additionalFields (handleDeleteQuestion rt i a) = emptyFields)
       \<and> (\<forall>q \<in> set (questions (handleDeleteQuestion rt i a)).
            expanded (handleDeleteQuestion rt i a) \<noteq> Some (q_id q))"
  using assms
  by (auto simp: handleDeleteQuestion_def Let_def questionsEffect_def)

theorem delete_active_witness:
  "expanded (editingName ''X'' [nameQuestion] emptyStore) = Some ''X''
   \<and> questions (handleDeleteQuestion browserJSON ''X'' (editingName ''X'' [nameQuestion] emptyStore)) = []
   \<and> expanded (handleDeleteQuestion browserJSON ''X'' (editingName ''X'' [nameQuestion] emptyStore)) = None
   \<and> questionTitle (handleDeleteQuestion browserJSON ''X'' (editingName ''X'' [nameQuestion] emptyStore)) = []"
proof -
  let ?a = "editingName ''X'' [nameQuestion] emptyStore"
  have h: "expanded ?a = Some ''X''" by (simp add: editingName_def initialState_def)
  have q: "questions (handleDeleteQuestion browserJSON ''X'' ?a) = []"
    by (simp add: handleDeleteQuestion_questions editingName_def initialState_def nameQuestion_def)
  from delete_active [OF h, of browserJSON] h q show ?thesis by simp
qed

section \<open>A commit whose write fails\<close>

text \<open>
  With a store that accepts no write, a successful commit sets the success message and
  no error message.
\<close>

theorem save_failure_counterexample:
  "saveToLocalStorage browserJSON (questions (typingName [] fullStore)) (localStorage (typingName [] fullStore))
     = Inl QuotaExceededError
   \<and> error (handleSaveChanges browserJSON ''X'' (typingName [] fullStore)) = None
   \<and> successMessage (handleSaveChanges browserJSON ''X'' (typingName [] fullStore))
       = Some ''Question added successfully.''"
  by code_simp

text \<open>
  C9, as the code has it. When the buffer is valid and the promise of \<open>saveToLocalStorage\<close> is
  rejected, the list in memory holds the committed change and the success message is
  set; the rejection is not handled: \<open>error\<close> is left as it was, the storage is left as
  it was, and the error is recorded among the unhandled rejections only.
\<close>

theorem save_failure:
  assumes "trim (questionTitle a) \<noteq> []" and "trim (questionType a) \<noteq> []"
    and "saveToLocalStorage rt (questions a) (localStorage a) = Inl e"
  shows "questions (handleSaveChanges rt uuid a) =
           (case expanded a of
              None \<Rightarrow> questions a @ [newQuestion uuid a]
            | Some i \<Rightarrow> map (\<lambda>q. if q_id q = i then updateQuestion a q else q) (questions a))
       \<and> error (handleSaveChanges rt uuid a) = error a
       \<and> successMessage (handleSaveChanges rt uuid a) \<noteq> None
       \<and> rejections (handleSaveChanges rt uuid a) = rejections a @ [e]
       \<and> localStorage (handleSaveChanges rt uuid a) = localStorage a"
  using assms
  by (simp add: handleSaveChanges_questions handleSaveChanges_closed handleSaveChanges_promise)

theorem save_failure_witness:
  "trim (questionTitle (typingName [] fullStore)) \<noteq> []
   \<and> trim (questionType (typingName [] fullStore)) \<noteq> []
   \<and> saveToLocalStorage browserJSON (questions (typingName [] fullStore))
        (localStorage (typingName [] fullStore)) = Inl QuotaExceededError
   \<and> questions (handleSaveChanges browserJSON ''X'' (typingName [] fullStore)) = [nameQuestion]
   \<and> error (handleSaveChanges browserJSON ''X'' (typingName [] fullStore)) = None
   \<and> rejections (handleSaveChanges browserJSON ''X'' (typingName [] fullStore)) = [QuotaExceededError]
   \<and> localStorage (handleSaveChanges browserJSON ''X'' (typingName [] fullStore)) = fullStore"
proof -
  let ?a = "typingName [] fullStore"
  have h1: "trim (questionTitle ?a) \<noteq> []" by code_simp
  have h2: "trim (questionType ?a) \<noteq> []" by code_simp
  have h3: "saveToLocalStorage browserJSON (questions ?a) (localStorage ?a) = Inl QuotaExceededError"
    by code_simp
  have e: "expanded ?a = None" "questions ?a = []" "error ?a = None" "rejections ?a = []"
    "localStorage ?a = fullStore"
    by (simp_all add: typingName_def initialState_def)
  have n: "newQuestion ''X'' ?a = nameQuestion" by code_simp
  from save_failure [OF h1 h2 h3, of "''X''"] h1 h2 h3 e n show ?thesis by simp
qed

section \<open>Deleting a question\<close>

lemma filter_distinct_split:
  assumes "distinct (map q_id qs)" and "i \<in> q_id ` set qs"
  shows "\<exists>xs q ys. qs = xs @ q # ys \<and> q_id q = i \<and> filter (\<lambda>q. q_id q \<noteq> i) qs = xs @ ys"
  using assms
proof (induction qs)
  case Nil
  then show ?case by simp
next
  case (Cons p ps)
  show ?case
  proof (cases "q_id p = i")
    case True
    with Cons.prems have "i \<notin> q_id ` set ps" by auto
    then have "filter (\<lambda>q. q_id q \<noteq> i) ps = ps" by (auto simp: filter_id_conv)
    with True have "p # ps = [] @ p # ps \<and> q_id p = i \<and> filter (\<lambda>q. q_id q \<noteq> i) (p # ps) = [] @ ps"
      by simp
    then show ?thesis by blast
  next
    case False
    with Cons.prems have "distinct (map q_id ps)" "i \<in> q_id ` set ps" by auto
    from Cons.IH [OF this] obtain xs q ys
      where "ps = xs @ q # ys" "q_id q = i" "filter (\<lambda>q. q_id q \<noteq> i) ps = xs @ ys" by blast
    with False have "p # ps = (p # xs) @ q # ys \<and> q_id q = i
        \<and> filter (\<lambda>q. q_id q \<noteq> i) (p # ps) = (p # xs) @ ys" by simp
    then show ?thesis by blast
  qed
qed

lemma setItem_again:
  assumes "setItem k v st = Inr st'"
  shows "setItem k v st' = Inr st'"
proof -
  have "AList.update k v (AList.update k v (items st)) = AList.update k v (items st)"
    by (simp add: update_last)
  with assms show ?thesis
    by (auto simp: setItem_def Let_def split: if_splits)
qed

lemma dropPromise_setItem_idem:
  "dropPromise (setItem k v (localStorage (dropPromise (setItem k v (localStorage a)) b))) c
     = dropPromise (setItem k v (localStorage a)) c" if "localStorage b = localStorage a"
proof (cases "setItem k v (localStorage a)")
  case (Inl e)
  with that show ?thesis by (simp add: dropPromise_def)
next
  case (Inr st')
  with setItem_again [OF Inr] show ?thesis by (simp add: dropPromise_def)
qed

lemma handleDeleteQuestion_storage:
  "localStorage (handleDeleteQuestion rt i a) =
     (case saveToLocalStorage rt (filter (\<lambda>q. q_id q \<noteq> i) (questions a)) (localStorage a) of
        Inl e \<Rightarrow> localStorage a | Inr st \<Rightarrow> st)"
  by (simp add: handleDeleteQuestion_def Let_def dropPromise_localStorage split: sum.splits)

lemma handleDeleteQuestion_twice_storage:
  "localStorage (handleDeleteQuestion rt i (handleDeleteQuestion rt i a))
     = localStorage (handleDeleteQuestion rt i a)"
proof (cases "saveToLocalStorage rt (filter (\<lambda>q. q_id q \<noteq> i) (questions a)) (localStorage a)")
  case (Inl e)
  then show ?thesis
    by (simp add: handleDeleteQuestion_storage handleDeleteQuestion_questions)
next
  case (Inr st')
  then have "saveToLocalStorage rt (filter (\<lambda>q. q_id q \<noteq> i) (questions a)) st' = Inr st'"
    unfolding saveToLocalStorage_def by (rule setItem_again)
  with Inr show ?thesis
    by (simp add: handleDeleteQuestion_storage handleDeleteQuestion_questions)
qed

lemma handleDeleteQuestion_state:
  "(handleDeleteQuestion rt i a)\<lparr>localStorage := st, rejections := r\<rparr>
     = questionsEffect (a\<lparr>questions := filter (\<lambda>q. q_id q \<noteq> i) (questions a),
                          localStorage := st, rejections := r\<rparr>)"
  by (simp add: handleDeleteQuestion_def Let_def dropPromise_def questionsEffect_def split: sum.splits)

text \<open>
  C5. \<open>handleDeleteQuestion\<close> keeps, in their order, the questions whose id is not
  the given one. When the ids of the list are unique and the id is in the list, exactly
  the question with that id is taken out; when the id is not in the list, the list is
  unchanged. No error message is set. The list that is handed to
  \<open>saveToLocalStorage\<close> is the new one, and when the write is accepted the store holds
  its text. Deleting the same id a second time changes neither the list nor the store
  nor any state variable.
\<close>

theorem deleteQuestion_removes:
  assumes "distinct (map q_id (questions a))"
  shows "questions (handleDeleteQuestion rt i a) = filter (\<lambda>q. q_id q \<noteq> i) (questions a)
       \<and> (i \<in> q_id ` set (questions a) \<longrightarrow>
            (\<exists>xs q ys. questions a = xs @ q # ys \<and> q_id q = i
                \<and> questions (handleDeleteQuestion rt i a) = xs @ ys))
       \<and> (i \<notin> q_id ` set (questions a) \<longrightarrow>
            questions (handleDeleteQuestion rt i a) = questions a)
       \<and> error (handleDeleteQuestion rt i a) = error a
       \<and> (\<forall>st. saveToLocalStorage rt (questions (handleDeleteQuestion rt i a)) (localStorage a) = Inr st
            \<longrightarrow> localStorage (handleDeleteQuestion rt i a) = st
              \<and> getItem ''questions'' (localStorage (handleDeleteQuestion rt i a))
                  = Some (JSON_stringify rt (questions (handleDeleteQuestion rt i a))))
       \<and> questions (handleDeleteQuestion rt i (handleDeleteQuestion rt i a))
           = questions (handleDeleteQuestion rt i a)
       \<and> localStorage (handleDeleteQuestion rt i (handleDeleteQuestion rt i a))
           = localStorage (handleDeleteQuestion rt i a)
       \<and> (handleDeleteQuestion rt i (handleDeleteQuestion rt i a))\<lparr>rejections := []\<rparr>
           = (handleDeleteQuestion rt i a)\<lparr>rejections := []\<rparr>"
proof -
  let ?d = "handleDeleteQuestion rt i"
  have q: "questions (?d a) = filter (\<lambda>q. q_id q \<noteq> i) (questions a)"
    by (rule handleDeleteQuestion_questions)
  have present: "i \<in> q_id ` set (questions a) \<longrightarrow>
      (\<exists>xs q ys. questions a = xs @ q # ys \<and> q_id q = i \<and> questions (?d a) = xs @ ys)"
    using filter_distinct_split [OF assms] q by simp
  have absent: "i \<notin> q_id ` set (questions a) \<longrightarrow> questions (?d a) = questions a"
    by (auto simp: q filter_id_conv)
  have err: "error (?d a) = error a"
    by (simp add: handleDeleteQuestion_def Let_def)
  have persist: "\<forall>st. saveToLocalStorage rt (questions (?d a)) (localStorage a) = Inr st
      \<longrightarrow> localStorage (?d a) = st
        \<and> getItem ''questions'' (localStorage (?d a)) = Some (JSON_stringify rt (questions (?d a)))"
    by (auto simp: q handleDeleteQuestion_storage saveToLocalStorage_def getItem_setItem)
  have twice_q: "questions (?d (?d a)) = questions (?d a)"
    by (simp add: handleDeleteQuestion_questions)
  have twice_st: "localStorage (?d (?d a)) = localStorage (?d a)"
    by (rule handleDeleteQuestion_twice_storage)
  have "(?d (?d a))\<lparr>localStorage := localStorage (?d a), rejections := []\<rparr>
      = (?d a)\<lparr>localStorage := localStorage (?d a), rejections := []\<rparr>"
    unfolding handleDeleteQuestion_state
    by (simp add: handleDeleteQuestion_def Let_def dropPromise_def questionsEffect_def split: sum.splits)
  then have "(?d (?d a))\<lparr>localStorage := localStorage (?d (?d a)), rejections := []\<rparr>
      = (?d a)\<lparr>localStorage := localStorage (?d a), rejections := []\<rparr>"
    by (simp only: twice_st)
  then have twice: "(?d (?d a))\<lparr>rejections := []\<rparr> = (?d a)\<lparr>rejections := []\<rparr>"
    by simp
  from q present absent err persist twice_q twice_st twice show ?thesis by blast
qed

theorem deleteQuestion_removes_witness:
  "distinct (map q_id (questions (initialState [nameQuestion, ageQuestion] emptyStore)))
   \<and> ''X'' \<in> q_id ` set (questions (initialState [nameQuestion, ageQuestion] emptyStore))
   \<and> questions (handleDeleteQuestion browserJSON ''X''
                   (initialState [nameQuestion, ageQuestion] emptyStore)) = [ageQuestion]
   \<and> questions (handleDeleteQuestion browserJSON ''X''
                   (handleDeleteQuestion browserJSON ''X''
                      (initialState [nameQuestion, ageQuestion] emptyStore))) = [ageQuestion]
   \<and> getItem ''questions'' (localStorage (handleDeleteQuestion browserJSON ''X''
                   (initialState [nameQuestion, ageQuestion] emptyStore)))
       = Some (JSON_stringify browserJSON [ageQuestion])
   \<and> ''Q'' \<notin> q_id ` set (questions (initialState [nameQuestion, ageQuestion] emptyStore))
   \<and> questions (handleDeleteQuestion browserJSON ''Q''
                   (initialState [nameQuestion, ageQuestion] emptyStore)) = [nameQuestion, ageQuestion]"
proof -
  let ?a = "initialState [nameQuestion, ageQuestion] emptyStore"
  have q: "questions ?a = [nameQuestion, ageQuestion]" by (simp add: initialState_def)
  have ids: "q_id nameQuestion = ''X''" "q_id ageQuestion = ''Y''"
    by (simp_all add: nameQuestion_def ageQuestion_def)
  have h: "distinct (map q_id (questions ?a))" by (simp add: q ids)
  have f: "filter (\<lambda>q. q_id q \<noteq> ''X'') (questions ?a) = [ageQuestion]" by (simp add: q ids)
  have s: "saveToLocalStorage browserJSON [ageQuestion] (localStorage ?a)
      = Inr (emptyStore\<lparr>items := [(''questions'', JSON_stringify browserJSON [ageQuestion])]\<rparr>)"
    by code_simp
  from deleteQuestion_removes [OF h, of browserJSON "''X''"]
    deleteQuestion_removes [OF h, of browserJSON "''Q''"] h f s
  show ?thesis by (auto simp: q ids)
qed

section \<open>Identifiers across commits\<close>

lemma enterEdit_fields [simp]:
  "questions (enterEdit e a) = questions a"
  "expanded (enterEdit e a) = e_target e"
  "questionTitle (enterEdit e a) = e_title e"
  "questionType (enterEdit e a) = e_type e"
  by (simp_all add: enterEdit_def)

lemma commitEdit_ids:
  assumes "validEdit e"
  shows "map q_id (questions (commitEdit rt e a)) =
           map q_id (questions a) @ (if e_target e = None then [e_uuid e] else [])"
proof -
  have v: "trim (questionTitle (enterEdit e a)) \<noteq> []" "trim (questionType (enterEdit e a)) \<noteq> []"
    using assms by (simp_all add: validEdit_def)
  show ?thesis
  proof (cases "e_target e")
    case None
    then show ?thesis
      by (simp add: commitEdit_def handleSaveChanges_questions [OF v] newQuestion_def)
  next
    case (Some i)
    have "map q_id (map (\<lambda>q. if q_id q = i then updateQuestion (enterEdit e a) q else q) (questions a))
            = map q_id (questions a)"
      by (induction "questions a") (auto simp: comp_def)
    with Some show ?thesis
      by (simp add: commitEdit_def handleSaveChanges_questions [OF v])
  qed
qed

lemma commitEdits_ids:
  assumes "\<forall>e \<in> set es. validEdit e"
  shows "map q_id (questions (commitEdits rt es a)) = map q_id (questions a) @ newIds es"
  using assms
proof (induction es arbitrary: a)
  case Nil
  then show ?case by (simp add: commitEdits_def newIds_def)
next
  case (Cons e es)
  then have "map q_id (questions (commitEdits rt es (commitEdit rt e a)))
      = map q_id (questions (commitEdit rt e a)) @ newIds es" by simp
  moreover have "commitEdits rt (e # es) a = commitEdits rt es (commitEdit rt e a)"
    by (simp add: commitEdits_def)
  moreover have "validEdit e" using Cons.prems by simp
  ultimately show ?case
    by (simp add: commitEdit_ids newIds_def)
qed

text \<open>
  C4. After any sequence of commits with valid buffers, the ids of the list are the ids
  it had before, in the same positions, followed by the ids that \<open>uuidv4\<close> handed out
  to the commits of new questions, in the order of these commits. So every id that was
  in the list keeps its position, new questions stand at the end, and the ids stay unique
  when they were unique before and \<open>uuidv4\<close> hands out ids that are new and different
  from each other.
\<close>

theorem commits_keep_ids:
  assumes "\<forall>e \<in> set es. validEdit e"
    and "distinct (map q_id (questions a))"
    and "distinct (newIds es)"
    and "set (newIds es) \<inter> q_id ` set (questions a) = {}"
  shows "distinct (map q_id (questions (commitEdits rt es a)))
       \<and> map q_id (questions (commitEdits rt es a)) = map q_id (questions a) @ newIds es
       \<and> (\<forall>n < length (questions a).
            q_id (questions (commitEdits rt es a) ! n) = q_id (questions a ! n))"
proof -
  let ?qs' = "questions (commitEdits rt es a)"
  have ids: "map q_id ?qs' = map q_id (questions a) @ newIds es"
    using assms(1) by (rule commitEdits_ids)
  have d: "distinct (map q_id ?qs')"
    using assms(2-4) by (auto simp: ids)
  have pos: "\<forall>n < length (questions a). q_id (?qs' ! n) = q_id (questions a ! n)"
  proof (intro allI impI)
    fix n assume n: "n < length (questions a)"
    then have "n < length ?qs'" using arg_cong [OF ids, of length] by simp
    then have "q_id (?qs' ! n) = map q_id ?qs' ! n" by simp
    also have "\<dots> = map q_id (questions a) ! n" using n by (simp add: ids nth_append)
    also have "\<dots> = q_id (questions a ! n)" using n by simp
    finally show "q_id (?qs' ! n) = q_id (questions a ! n)" .
  qed
  from d ids pos show ?thesis by blast
qed

theorem commits_keep_ids_witness:
  "validEdit addName \<and> validEdit requireName
   \<and> distinct (map q_id (questions (initialState [ageQuestion] emptyStore)))
   \<and> newIds [addName, requireName] = [''X'']
   \<and> map q_id (questions (commitEdits browserJSON [addName, requireName]
                             (initialState [ageQuestion] emptyStore))) = [''Y'', ''X'']
   \<and> distinct (map q_id (questions (commitEdits browserJSON [addName, requireName]
                                       (initialState [ageQuestion] emptyStore))))"
proof -
  let ?a = "initialState [ageQuestion] emptyStore"
  let ?es = "[addName, requireName]"
  have v1: "validEdit addName" and v2: "validEdit requireName" by code_simp+
  then have h1: "\<forall>e \<in> set ?es. validEdit e" by simp
  have q: "map q_id (questions ?a) = [''Y'']" by (simp add: initialState_def ageQuestion_def)
  have n: "newIds ?es = [''X'']" by (simp add: newIds_def addName_def requireName_def)
  have h2: "distinct (map q_id (questions ?a))" by (simp add: q)
  have h3: "distinct (newIds ?es)" by (simp add: n)
  have h4: "set (newIds ?es) \<inter> q_id ` set (questions ?a) = {}"
    by (simp add: n initialState_def ageQuestion_def)
  from commits_keep_ids [OF h1 h2 h3 h4, of browserJSON] v1 v2 h2 n q show ?thesis by simp
qed

section \<open>Loading\<close>

text \<open>
  With the text \<open>{\<close> under the key, \<open>JSON.parse\<close> throws, \<open>loadFromLocalStorage\<close>
  throws with it, and so does the first render of the component.
\<close>

theorem load_unparseable_counterexample:
  "getItem ''questions'' corruptStore = Some ''{''
   \<and> JSON_parse browserJSON ''{'' = Inl SyntaxError
   \<and> loadFromLocalStorage browserJSON corruptStore = Inl SyntaxError
   \<and> AddQuestionForm browserJSON corruptStore = Inl SyntaxError"
  by code_simp

text \<open>
  C2, as the code has it. \<open>loadFromLocalStorage\<close> returns a list in three cases only: nothing is
  stored under the key, or the empty text is, and the list is empty; or a non-empty
  text is stored and \<open>JSON.parse\<close> returns the list for it. It throws exactly when a
  non-empty text is stored on which \<open>JSON.parse\<close> throws, with the error of
  \<open>JSON.parse\<close>, and the first render of the component throws that error as well.
\<close>

theorem load_outcomes:
  "(loadFromLocalStorage rt st = Inr qs \<longleftrightarrow>
      (getItem ''questions'' st = None \<and> qs = [])
    \<or> (getItem ''questions'' st = Some [] \<and> qs = [])
    \<or> (\<exists>s. getItem ''questions'' st = Some s \<and> s \<noteq> [] \<and> JSON_parse rt s = Inr qs))
   \<and> (loadFromLocalStorage rt st = Inl e \<longleftrightarrow>
      (\<exists>s. getItem ''questions'' st = Some s \<and> s \<noteq> [] \<and> JSON_parse rt s = Inl e))
   \<and> (AddQuestionForm rt st = Inl e \<longleftrightarrow> loadFromLocalStorage rt st = Inl e)"
  by (auto simp: loadFromLocalStorage_def AddQuestionForm_def split: option.splits sum.splits)

theorem load_outcomes_witness:
  "loadFromLocalStorage browserJSON emptyStore = Inr []
   \<and> loadFromLocalStorage browserJSON
        (emptyStore\<lparr>items := [(''questions'', JSON_stringify browserJSON [nameQuestion, ageQuestion])]\<rparr>)
       = Inr [nameQuestion, ageQuestion]
   \<and> loadFromLocalStorage browserJSON corruptStore = Inl SyntaxError"
proof -
  let ?t = "JSON_stringify browserJSON [nameQuestion, ageQuestion]"
  let ?st = "emptyStore\<lparr>items := [(''questions'', ?t)]\<rparr>"
  have a: "getItem ''questions'' emptyStore = None" by code_simp
  have b: "getItem ''questions'' ?st = Some ?t" by (simp add: getItem_def)
  have b': "?t \<noteq> []" by code_simp
  have b'': "JSON_parse browserJSON ?t = Inr [nameQuestion, ageQuestion]" by code_simp
  have c: "getItem ''questions'' corruptStore = Some ''{''" by code_simp
  have c': "JSON_parse browserJSON ''{'' = Inl SyntaxError" by code_simp
  from load_outcomes [of browserJSON emptyStore "[]" SyntaxError] a
  have 1: "loadFromLocalStorage browserJSON emptyStore = Inr []" by simp
  from load_outcomes [of browserJSON ?st "[nameQuestion, ageQuestion]" SyntaxError] b b' b''
  have 2: "loadFromLocalStorage browserJSON ?st = Inr [nameQuestion, ageQuestion]" by blast
  from load_outcomes [of browserJSON corruptStore "[]" SyntaxError] c c'
  have 3: "loadFromLocalStorage browserJSON corruptStore = Inl SyntaxError" by simp
  from 1 2 3 show ?thesis by blast
qed

section \<open>The instance reads back what it prints\<close>

declare show_nat.simps [simp del]

lemma of_char_digit_char: "d < 10 \<Longrightarrow> (of_char (digit_char d) :: nat) = 48 + d"
  by (simp add: digit_char_def)

lemma is_digit_digit_char: "d < 10 \<Longrightarrow> is_digit (digit_char d)"
  by (simp add: is_digit_def of_char_digit_char)

lemma digit_char_0: "digit_char 0 = CHR ''0''"
  by code_simp

lemma digit_char_zero: "d < 10 \<Longrightarrow> digit_char d = CHR ''0'' \<longleftrightarrow> d = 0"
proof
  assume d: "d < 10" and "digit_char d = CHR ''0''"
  then have "(of_char (digit_char d) :: nat) = of_char (CHR ''0'')" by simp
  with d show "d = 0" by (simp add: of_char_digit_char)
qed (simp add: digit_char_0)

lemma show_nat_digits: "list_all is_digit (show_nat n)"
proof (induction n rule: show_nat.induct)
  case (1 n)
  show ?case
  proof (cases "n < 10")
    case True
    then show ?thesis by (subst show_nat.simps) (simp add: is_digit_digit_char)
  next
    case False
    with 1 show ?thesis by (subst show_nat.simps) (simp add: is_digit_digit_char)
  qed
qed

lemma show_nat_nonempty: "show_nat n \<noteq> []"
  by (subst show_nat.simps) simp

lemma show_nat_hd: "hd (show_nat n) = CHR ''0'' \<longleftrightarrow> n = 0"
proof (induction n rule: show_nat.induct)
  case (1 n)
  show ?case
  proof (cases "n < 10")
    case True
    then show ?thesis by (subst show_nat.simps) (simp add: digit_char_zero)
  next
    case False
    then have "hd (show_nat n) = hd (show_nat (n div 10))"
      by (subst show_nat.simps) (simp add: show_nat_nonempty)
    with False 1 show ?thesis by simp
  qed
qed

lemma digits_value_snoc:
  "digits_value (ds @ [c]) = 10 * digits_value ds + (of_char c - 48)"
  by (simp add: digits_value_def)

lemma digits_value_show_nat: "digits_value (show_nat n) = n"
proof (induction n rule: show_nat.induct)
  case (1 n)
  show ?case
  proof (cases "n < 10")
    case True
    then show ?thesis
      by (subst show_nat.simps) (simp add: digits_value_def of_char_digit_char)
  next
    case False
    with 1 show ?thesis
      by (subst show_nat.simps) (simp add: digits_value_snoc of_char_digit_char)
  qed
qed

lemma ok_rest_simps [simp]:
  "ok_rest []" "ok_rest (CHR '','' # s)" "ok_rest (CHR '']'' # s)" "ok_rest (CHR ''}'' # s)"
  by (simp_all add: ok_rest_def)

lemma takeWhile_digits:
  assumes "list_all is_digit ds" "ok_rest rest"
  shows "takeWhile is_digit (ds @ rest) = ds" "dropWhile is_digit (ds @ rest) = rest"
proof -
  have r: "takeWhile is_digit rest = []" "dropWhile is_digit rest = rest"
    using assms(2) by (auto simp: ok_rest_def is_digit_def split: list.splits)
  from assms(1) show "takeWhile is_digit (ds @ rest) = ds" "dropWhile is_digit (ds @ rest) = rest"
    by (induction ds) (simp_all add: r)
qed

lemma parse_digits_nonzero:
  assumes "is_digit c" "c \<noteq> CHR ''0''"
    and "takeWhile is_digit t = cs" "dropWhile is_digit t = rest" "ok_rest rest"
  shows "parse_digits neg (c # t)
           = Inr (JNumber (if neg then - int (digits_value (c # cs)) else int (digits_value (c # cs))), rest)"
  using assms unfolding parse_digits_def
  by (auto simp: Let_def ok_rest_def split: list.splits)

lemma parse_digits_show_nat:
  assumes "ok_rest rest"
  shows "parse_digits neg (show_nat n @ rest)
           = Inr (JNumber (if neg then - int n else int n), rest)"
proof -
  obtain c cs where s: "show_nat n = c # cs"
    using show_nat_nonempty [of n] by (cases "show_nat n") auto
  have d: "is_digit c" "list_all is_digit cs" using show_nat_digits [of n] s by auto
  have notdot: "\<not> (case rest of [] \<Rightarrow> False | d # _ \<Rightarrow> d = CHR ''.'' \<or> d = CHR ''e'' \<or> d = CHR ''E'')"
    using assms by (auto simp: ok_rest_def split: list.splits)
  show ?thesis
  proof (cases "n = 0")
    case True
    then have "show_nat n = ''0''" by (subst show_nat.simps) (simp add: digit_char_0)
    with True assms show ?thesis
      by (auto simp: parse_digits_def is_digit_def digits_value_def ok_rest_def split: list.splits)
  next
    case False
    then have c0: "c \<noteq> CHR ''0''" using show_nat_hd [of n] s by simp
    have v: "digits_value (c # cs) = n" using digits_value_show_nat [of n] s by simp
    have tw: "takeWhile is_digit (cs @ rest) = cs" and dw: "dropWhile is_digit (cs @ rest) = rest"
      using takeWhile_digits [OF d(2) assms] by simp_all
    have "parse_digits neg (c # (cs @ rest))
        = Inr (JNumber (if neg then - int n else int n), rest)"
      using parse_digits_nonzero [OF d(1) c0 tw dw assms, of neg] by (simp add: v)
    then show ?thesis by (simp add: s)
  qed
qed

lemma show_int_hd:
  "\<exists>c cs. show_int i = c # cs \<and> (is_digit c \<or> c = CHR ''-'')"
proof (cases "i < 0")
  case True
  then show ?thesis by (simp add: show_int_def)
next
  case False
  obtain c cs where s: "show_nat (nat i) = c # cs"
    using show_nat_nonempty [of "nat i"] by (cases "show_nat (nat i)") auto
  with show_nat_digits [of "nat i"] have "is_digit c" by simp
  with s False show ?thesis by (simp add: show_int_def)
qed

lemma parse_literal_show_int:
  assumes "ok_rest rest"
  shows "parse_literal (show_int i @ rest) = Inr (JNumber i, rest)"
proof (cases "i < 0")
  case True
  then have "parse_literal (show_int i @ rest) = parse_digits True (show_nat (nat (- i)) @ rest)"
    by (simp add: show_int_def parse_literal_def)
  also have "\<dots> = Inr (JNumber i, rest)"
    using True by (simp add: parse_digits_show_nat [OF assms])
  finally show ?thesis .
next
  case False
  obtain c cs where s: "show_nat (nat i) = c # cs"
    using show_nat_nonempty [of "nat i"] by (cases "show_nat (nat i)") auto
  with show_nat_digits [of "nat i"] have d: "is_digit c" by simp
  then have c: "c \<noteq> CHR ''n''" "c \<noteq> CHR ''t''" "c \<noteq> CHR ''f''" "c \<noteq> CHR ''-''"
    by (auto simp: is_digit_def)
  have "parse_literal (show_int i @ rest) = parse_digits False (show_nat (nat i) @ rest)"
    using False c by (simp add: show_int_def parse_literal_def s)
  also have "\<dots> = Inr (JNumber i, rest)"
    using False by (simp add: parse_digits_show_nat [OF assms])
  finally show ?thesis .
qed

lemma hex_value_hex_char: "d < 16 \<Longrightarrow> hex_value (hex_char d) = Some d"
  by (auto simp: hex_value_def hex_char_def Let_def)

lemma hex_value_0: "hex_value (CHR ''0'') = Some 0"
  by (simp add: hex_value_def)

lemma special_chars:
  "dquote \<noteq> bslash" "bslash \<noteq> dquote" "dquote \<noteq> CHR ''u''" "bslash \<noteq> CHR ''u''"
  "(of_char dquote :: nat) = 34" "(of_char bslash :: nat) = 92"
  by (simp_all add: dquote_def bslash_def)

lemma parse_chars_escaped:
  assumes "e \<noteq> CHR ''u''" "unescape e = Some c"
  shows "parse_chars (bslash # e # t) = cons_char c (parse_chars t)"
  using assms by (simp add: special_chars)

lemma parse_chars_plain:
  assumes "c \<noteq> dquote" "c \<noteq> bslash" "\<not> (of_char c :: nat) < 32"
  shows "parse_chars (c # t) = cons_char c (parse_chars t)"
  using assms by simp

lemma parse_chars_control:
  assumes "(of_char c :: nat) < 32"
  shows "parse_chars (bslash # CHR ''u'' # CHR ''0'' # CHR ''0''
            # hex_char (of_char c div 16) # hex_char (of_char c mod 16) # t)
           = cons_char c (parse_chars t)"
proof -
  have "(of_char c :: nat) div 16 < 16" using assms by simp
  then have h1: "hex_value (hex_char (of_char c div 16)) = Some (of_char c div 16)"
    by (rule hex_value_hex_char)
  have h2: "hex_value (hex_char (of_char c mod 16)) = Some (of_char c mod 16)"
    by (rule hex_value_hex_char) simp
  have "char_of (16 * ((of_char c :: nat) div 16) + of_char c mod 16) = c"
    by simp
  then show ?thesis
    by (simp add: special_chars hex_value_0 h1 h2 del: mult_div_mod_eq)
qed

lemma parse_chars_escape: "parse_chars (escape c @ t) = cons_char c (parse_chars t)"
proof (cases "c = dquote \<or> c = bslash \<or> c = CHR 0x08 \<or> c = CHR 0x0C \<or> c = CHR 0x0A
    \<or> c = CHR 0x0D \<or> c = CHR 0x09")
  case True
  then show ?thesis
    by (elim disjE) (simp_all add: escape_def unescape_def dquote_def bslash_def)
next
  case False
  show ?thesis
  proof (cases "(of_char c :: nat) < 32")
    case True
    with False show ?thesis using parse_chars_control [of c t]
      by (simp add: escape_def)
  next
    case ge: False
    with False show ?thesis using parse_chars_plain [of c t]
      by (simp add: escape_def)
  qed
qed

lemma cons_char_Inr [simp]: "cons_char c (Inr (s, rest)) = Inr (c # s, rest)"
  by (simp add: cons_char_def)

lemma parse_chars_quote:
  "parse_chars (concat (map escape s) @ dquote # rest) = Inr (s, rest)"
  by (induction s) (simp_all add: parse_chars_escape del: parse_chars.simps(2), simp)

lemma skip_ws_Cons: "\<not> is_ws c \<Longrightarrow> skip_ws (c # cs) = c # cs"
  by (simp add: skip_ws_def)

lemma update_fresh: "k \<notin> fst ` set al \<Longrightarrow> AList.update k v al = al @ [(k, v)]"
  by (induction al) auto

lemma foldl_update_distinct:
  "distinct (map fst (acc @ kvs)) \<Longrightarrow>
     foldl (\<lambda>obj kv. AList.update (fst kv) (snd kv) obj) acc kvs = acc @ kvs"
proof (induction kvs arbitrary: acc)
  case Nil
  then show ?case by simp
next
  case (Cons kv kvs)
  then have "fst kv \<notin> fst ` set acc" by auto
  then have u: "AList.update (fst kv) (snd kv) acc = acc @ [kv]"
    by (simp add: update_fresh)
  from Cons.prems have "distinct (map fst ((acc @ [kv]) @ kvs))" by simp
  from Cons.IH [OF this] u show ?case by simp
qed

lemma object_of_members_distinct:
  "distinct (map fst kvs) \<Longrightarrow> object_of_members kvs = kvs"
  using foldl_update_distinct [of "[]" kvs] by (simp add: object_of_members_def)

lemma digit_value_start: "is_digit c \<Longrightarrow> value_start c"
  by (auto simp: is_digit_def value_start_def is_ws_def)

lemma stringify_start: "\<exists>c t. stringify v = c # t \<and> value_start c"
proof (cases v)
  case (JNumber i)
  from show_int_hd [of i] obtain c cs where "show_int i = c # cs" "is_digit c \<or> c = CHR ''-''"
    by blast
  moreover have "value_start (CHR ''-'')" by (simp add: value_start_def is_ws_def)
  ultimately show ?thesis using JNumber digit_value_start by auto
qed (simp_all add: value_start_def is_ws_def quote_def dquote_def)

lemma stringify_elements_start:
  "vs \<noteq> [] \<Longrightarrow> \<exists>c t. stringify_elements vs = c # t \<and> value_start c"
proof (cases vs)
  case Nil
  then show "vs \<noteq> [] \<Longrightarrow> ?thesis" by simp
next
  case (Cons v ws)
  from stringify_start [of v] obtain c t where "stringify v = c # t" "value_start c" by blast
  with Cons show ?thesis by (cases ws) auto
qed

lemma stringify_members_start:
  "kvs \<noteq> [] \<Longrightarrow> \<exists>t. stringify_members kvs = dquote # t"
proof (cases kvs)
  case Nil
  then show "kvs \<noteq> [] \<Longrightarrow> ?thesis" by simp
next
  case (Cons kv ws)
  then show ?thesis by (cases kv; cases ws) (auto simp: quote_def)
qed

lemma parse_value_null: "parse_value (Suc m) (''null'' @ rest) = Inr (JNull, rest)"
  by (simp add: skip_ws_def is_ws_def dquote_def parse_literal_def)

lemma parse_value_bool:
  "parse_value (Suc m) ((if b then ''true'' else ''false'') @ rest) = Inr (JBool b, rest)"
  by (simp add: skip_ws_def is_ws_def dquote_def parse_literal_def)

lemma parse_value_number:
  assumes "ok_rest rest"
  shows "parse_value (Suc m) (show_int i @ rest) = Inr (JNumber i, rest)"
proof -
  from show_int_hd [of i] obtain c cs where s: "show_int i = c # cs" and c: "is_digit c \<or> c = CHR ''-''"
    by blast
  from c have ws: "\<not> is_ws c" and br: "c \<noteq> CHR ''[''" "c \<noteq> CHR ''{''" "c \<noteq> dquote"
    by (auto simp: is_digit_def is_ws_def dquote_def)
  have "parse_value (Suc m) (c # cs @ rest) = parse_literal (c # cs @ rest)"
    using br by (simp add: skip_ws_Cons [OF ws])
  also have "\<dots> = Inr (JNumber i, rest)"
    using parse_literal_show_int [OF assms, of i] by (simp add: s)
  finally show ?thesis by (simp add: s)
qed

lemma parse_value_string: "parse_value (Suc m) (quote s @ rest) = Inr (JString s, rest)"
proof -
  have ws: "\<not> is_ws dquote" by (simp add: is_ws_def dquote_def)
  have br: "dquote \<noteq> CHR ''[''" "dquote \<noteq> CHR ''{''" by (simp_all add: dquote_def)
  show ?thesis
    using br by (simp add: quote_def skip_ws_Cons [OF ws] parse_chars_quote)
qed

lemma parse_value_array:
  assumes "vs \<noteq> [] \<Longrightarrow> parse_elements m (stringify_elements vs @ CHR '']'' # rest) = Inr (vs, rest)"
  shows "parse_value (Suc m) (CHR ''['' # stringify_elements vs @ CHR '']'' # rest) = Inr (JArray vs, rest)"
proof (cases "vs = []")
  case True
  then show ?thesis by (simp add: skip_ws_def is_ws_def)
next
  case False
  from stringify_elements_start [OF False] obtain c t
    where s: "stringify_elements vs = c # t" and c: "value_start c" by blast
  have ws: "\<not> is_ws (CHR ''['')" by (simp add: is_ws_def)
  have "skip_ws (c # t @ CHR '']'' # rest) = c # t @ CHR '']'' # rest"
    using c by (simp add: skip_ws_Cons value_start_def)
  moreover have "c \<noteq> CHR '']''" using c by (simp add: value_start_def)
  moreover have "parse_elements m (c # t @ CHR '']'' # rest) = Inr (vs, rest)"
    using assms [OF False] by (simp add: s)
  ultimately show ?thesis
    by (simp add: s skip_ws_Cons [OF ws])
qed

lemma parse_value_object:
  assumes "distinct (map fst kvs)"
    and "kvs \<noteq> [] \<Longrightarrow> parse_members m (stringify_members kvs @ CHR ''}'' # rest) = Inr (kvs, rest)"
  shows "parse_value (Suc m) (CHR ''{'' # stringify_members kvs @ CHR ''}'' # rest) = Inr (JObject kvs, rest)"
proof (cases "kvs = []")
  case True
  then show ?thesis by (simp add: skip_ws_def is_ws_def object_of_members_def)
next
  case False
  from stringify_members_start [OF False] obtain t
    where s: "stringify_members kvs = dquote # t" by blast
  have ws: "\<not> is_ws (CHR ''{'')" "\<not> is_ws dquote" by (simp_all add: is_ws_def dquote_def)
  have "skip_ws (dquote # t @ CHR ''}'' # rest) = dquote # t @ CHR ''}'' # rest"
    by (simp add: skip_ws_Cons ws)
  moreover have "dquote \<noteq> CHR ''}''" by (simp add: dquote_def)
  moreover have "parse_members m (dquote # t @ CHR ''}'' # rest) = Inr (kvs, rest)"
    using assms(2) [OF False] by (simp add: s)
  ultimately show ?thesis
    by (simp add: s skip_ws_Cons [OF ws(1)] object_of_members_distinct [OF assms(1)])
qed

lemma parse_elements_last:
  assumes "parse_value m (stringify v @ CHR '']'' # rest) = Inr (v, CHR '']'' # rest)"
  shows "parse_elements (Suc m) (stringify v @ CHR '']'' # rest) = Inr ([v], rest)"
  using assms by (simp add: skip_ws_def is_ws_def)

lemma parse_elements_more:
  assumes "parse_value m (stringify v @ CHR '','' # t) = Inr (v, CHR '','' # t)"
    and "parse_elements m t = Inr (vs, rest)"
  shows "parse_elements (Suc m) (stringify v @ CHR '','' # t) = Inr (v # vs, rest)"
  using assms by (simp add: skip_ws_def is_ws_def)

lemma parse_members_key:
  "parse_members (Suc m) (quote k @ CHR '':'' # t) =
     (case parse_value m t of
        Inl e \<Rightarrow> Inl e
      | Inr (v, s4) \<Rightarrow>
          (case skip_ws s4 of
             [] \<Rightarrow> Inl SyntaxError
           | c # cs \<Rightarrow>
               if c = CHR ''}'' then Inr ([(k, v)], cs)
               else if c = CHR '','' then
                 (case parse_members m cs of
                    Inl e \<Rightarrow> Inl e
                  | Inr (kvs, rest) \<Rightarrow> Inr ((k, v) # kvs, rest))
               else Inl SyntaxError))"
proof -
  have ws: "\<not> is_ws dquote" "\<not> is_ws (CHR '':'')" by (simp_all add: is_ws_def dquote_def)
  show ?thesis
    by (simp add: quote_def skip_ws_Cons ws parse_chars_quote)
qed

lemma parse_members_last:
  assumes "parse_value m (stringify v @ CHR ''}'' # rest) = Inr (v, CHR ''}'' # rest)"
  shows "parse_members (Suc m) (quote k @ CHR '':'' # stringify v @ CHR ''}'' # rest) = Inr ([(k, v)], rest)"
  using assms by (simp add: parse_members_key skip_ws_def is_ws_def del: parse_members.simps)

lemma parse_members_more:
  assumes "parse_value m (stringify v @ CHR '','' # t) = Inr (v, CHR '','' # t)"
    and "parse_members m t = Inr (kvs, rest)"
  shows "parse_members (Suc m) (quote k @ CHR '':'' # stringify v @ CHR '','' # t) = Inr ((k, v) # kvs, rest)"
  using assms by (simp add: parse_members_key skip_ws_def is_ws_def del: parse_members.simps)

lemma parse_stringify:
  "distinct_keys v \<Longrightarrow> nesting v \<le> n \<Longrightarrow> ok_rest rest \<Longrightarrow>
     parse_value n (stringify v @ rest) = Inr (v, rest)"
  "distinct_keys_elements vs \<Longrightarrow> vs \<noteq> [] \<Longrightarrow> nesting_elements vs \<le> n \<Longrightarrow>
     parse_elements n (stringify_elements vs @ CHR '']'' # rest) = Inr (vs, rest)"
  "distinct_keys_members kvs \<Longrightarrow> kvs \<noteq> [] \<Longrightarrow> nesting_members kvs \<le> n \<Longrightarrow>
     parse_members n (stringify_members kvs @ CHR ''}'' # rest) = Inr (kvs, rest)"
proof (induction v and vs and kvs arbitrary: n rest and n rest and n rest
    rule: stringify_stringify_elements_stringify_members.induct)
  case 1
  then obtain m where "n = Suc m" by (cases n) auto
  then show ?case using parse_value_null [of m rest] by (simp del: parse_value.simps)
next
  case (2 b)
  then obtain m where "n = Suc m" by (cases n) auto
  then show ?case using parse_value_bool [of m b rest] by (simp del: parse_value.simps)
next
  case (3 i)
  then obtain m where "n = Suc m" by (cases n) auto
  with 3 show ?case using parse_value_number [of rest m i] by (simp del: parse_value.simps)
next
  case (4 s)
  then obtain m where "n = Suc m" by (cases n) auto
  then show ?case using parse_value_string [of m s rest] by (simp del: parse_value.simps)
next
  case (5 vs)
  then obtain m where n: "n = Suc m" and m: "nesting_elements vs \<le> m" by (cases n) auto
  have "parse_elements m (stringify_elements vs @ CHR '']'' # rest) = Inr (vs, rest)" if "vs \<noteq> []"
    using "5.IH" [OF _ that m] "5.prems"(1) by simp
  from parse_value_array [OF this] show ?case by (simp add: n del: parse_value.simps)
next
  case (6 kvs)
  then obtain m where n: "n = Suc m" and m: "nesting_members kvs \<le> m" by (cases n) auto
  from "6.prems"(1) have d: "distinct (map fst kvs)" and w: "distinct_keys_members kvs" by simp_all
  have "parse_members m (stringify_members kvs @ CHR ''}'' # rest) = Inr (kvs, rest)" if "kvs \<noteq> []"
    using "6.IH" [OF w that m] .
  from parse_value_object [OF d this] show ?case by (simp add: n del: parse_value.simps)
next
  case 7
  then show ?case by simp
next
  case (8 v)
  then obtain m where n: "n = Suc m" and m: "nesting v \<le> m" by (cases n) auto
  from "8.prems"(1) have w: "distinct_keys v" by simp
  have "parse_value m (stringify v @ CHR '']'' # rest) = Inr (v, CHR '']'' # rest)"
    using "8.IH" [OF w m] by simp
  from parse_elements_last [OF this] show ?case by (simp add: n del: parse_elements.simps)
next
  case (9 v w vs)
  then obtain m where n: "n = Suc m" and m1: "nesting v \<le> m" and m2: "nesting_elements (w # vs) \<le> m"
    by (cases n) auto
  from "9.prems"(1) have w1: "distinct_keys v" and w2: "distinct_keys_elements (w # vs)" by simp_all
  let ?t = "stringify_elements (w # vs) @ CHR '']'' # rest"
  have a: "parse_value m (stringify v @ CHR '','' # ?t) = Inr (v, CHR '','' # ?t)"
    using "9.IH"(1) [OF w1 m1] by simp
  have b: "parse_elements m ?t = Inr (w # vs, rest)"
    using "9.IH"(2) [OF w2 _ m2] by simp
  from parse_elements_more [OF a b] show ?case by (simp add: n del: parse_elements.simps)
next
  case 10
  then show ?case by simp
next
  case (11 k v)
  then obtain m where n: "n = Suc m" and m: "nesting v \<le> m" by (cases n) auto
  from "11.prems"(1) have w: "distinct_keys v" by simp
  have "parse_value m (stringify v @ CHR ''}'' # rest) = Inr (v, CHR ''}'' # rest)"
    using "11.IH" [OF w m] by simp
  from parse_members_last [OF this] show ?case by (simp add: n del: parse_members.simps)
next
  case (12 k v kv kvs)
  then obtain m where n: "n = Suc m" and m1: "nesting v \<le> m" and m2: "nesting_members (kv # kvs) \<le> m"
    by (cases n) auto
  from "12.prems"(1) have w1: "distinct_keys v" and w2: "distinct_keys_members (kv # kvs)" by simp_all
  let ?t = "stringify_members (kv # kvs) @ CHR ''}'' # rest"
  have a: "parse_value m (stringify v @ CHR '','' # ?t) = Inr (v, CHR '','' # ?t)"
    using "12.IH"(1) [OF w1 m1] by simp
  have b: "parse_members m ?t = Inr (kv # kvs, rest)"
    using "12.IH"(2) [OF w2 _ m2] by simp
  from parse_members_more [OF a b] show ?case by (simp add: n del: parse_members.simps)
qed

lemma nesting_le_length:
  "nesting v \<le> length (stringify v)"
  "nesting_elements vs \<le> Suc (length (stringify_elements vs))"
  "nesting_members kvs \<le> Suc (length (stringify_members kvs))"
proof (induction v and vs and kvs rule: stringify_stringify_elements_stringify_members.induct)
  case (3 i)
  from show_int_hd [of i] obtain c cs where "show_int i = c # cs" by blast
  then show ?case by simp
qed (auto simp: quote_def)

lemma parse_json_stringify:
  assumes "distinct_keys v"
  shows "parse_json (stringify v) = Inr v"
proof -
  have "nesting v \<le> Suc (length (stringify v))"
    using nesting_le_length(1) [of v] by simp
  from parse_stringify(1) [OF assms this, of "[]"] show ?thesis
    by (simp add: parse_json_def skip_ws_def del: parse_value.simps)
qed

lemma json_fields_fields_json: "json_fields (Some (fields_json f)) = Some (Some f)"
  by (cases f; cases "af_numberType f"; cases "af_min f"; cases "af_max f";
      cases "the (af_numberType f)")
     (simp_all add: json_fields_def fields_json_def json_numberType_def json_number_def)

lemma json_question_question_json: "json_question (question_json q) = Some q"
  by (cases q; cases "q_helperText q"; cases "q_additionalFields q")
     (simp_all add: json_question_def question_json_def json_helperText_def
        json_fields_fields_json, simp_all add: json_fields_def)

lemma json_questions_questions_json: "json_questions (questions_json qs) = Some qs"
proof -
  have "json_question_list (map question_json qs) = Some qs"
    by (induction qs) (simp_all add: json_question_question_json)
  then show ?thesis by (simp add: json_questions_def questions_json_def)
qed

lemma distinct_keys_fields_json: "distinct_keys (fields_json f)"
  by (cases "af_numberType f"; cases "af_min f"; cases "af_max f"; cases "the (af_numberType f)")
     (simp_all add: fields_json_def)

lemma distinct_keys_question_json: "distinct_keys (question_json q)"
  using distinct_keys_fields_json
  by (cases "q_helperText q"; cases "q_additionalFields q") (simp_all add: question_json_def)

lemma distinct_keys_questions_json: "distinct_keys (questions_json qs)"
proof -
  have "distinct_keys_elements (map question_json qs)"
    by (induction qs) (simp_all add: distinct_keys_question_json)
  then show ?thesis by (simp add: questions_json_def)
qed

lemma browserJSON_reads_back:
  "JSON_parse browserJSON (JSON_stringify browserJSON qs) = Inr qs"
  by (simp add: browserJSON_def parse_json_stringify distinct_keys_questions_json
      json_questions_questions_json)

lemma browserJSON_text_nonempty: "JSON_stringify browserJSON qs \<noteq> []"
  by (simp add: browserJSON_def questions_json_def)

section \<open>Saving and loading\<close>

text \<open>
  On a store with nothing under the key, \<open>loadFromLocalStorage\<close> returns the empty
  list, and saving that list puts the text \<open>[]\<close> under the key: the content of the
  store has changed.
\<close>

theorem save_after_load_counterexample:
  "getItem ''questions'' emptyStore = None
   \<and> loadFromLocalStorage browserJSON emptyStore = Inr []
   \<and> saveToLocalStorage browserJSON [] emptyStore = Inr (emptyStore\<lparr>items := [(''questions'', ''[]'')]\<rparr>)
   \<and> getItem ''questions'' (emptyStore\<lparr>items := [(''questions'', ''[]'')]\<rparr>) = Some ''[]''"
  by code_simp

lemma update_same:
  "map_of al k = Some v \<Longrightarrow> AList.update k v al = al"
  by (induction al) (auto split: if_splits)

lemma setItem_same:
  assumes "getItem k st = Some v" and "setItem k v st = Inr st'"
  shows "st' = st"
  using assms by (auto simp: setItem_def getItem_def Let_def update_same split: if_splits)

lemma stored_after_save:
  "saveToLocalStorage rt Q st = Inr st' \<Longrightarrow> getItem ''questions'' st' = Some (JSON_stringify rt Q)"
  by (simp add: saveToLocalStorage_def getItem_setItem)

lemma load_stored_text:
  assumes "getItem ''questions'' st = Some (JSON_stringify rt Q)"
    and "JSON_parse rt (JSON_stringify rt Q) = Inr Q" and "JSON_stringify rt Q \<noteq> []"
  shows "loadFromLocalStorage rt st = Inr Q"
  using assms by (simp add: loadFromLocalStorage_def)

lemma save_stored_text:
  assumes "getItem ''questions'' st = Some (JSON_stringify rt Q)"
    and "saveToLocalStorage rt Q st = Inr st'"
  shows "st' = st"
  using assms unfolding saveToLocalStorage_def by (rule setItem_same)

text \<open>
  For the instance, every list is read back, so loading after a successful save returns
  the list that was saved, whatever the list.
\<close>

lemma browserJSON_load_after_save:
  assumes "saveToLocalStorage browserJSON Q st = Inr st'"
  shows "loadFromLocalStorage browserJSON st' = Inr Q"
  using stored_after_save [OF assms] browserJSON_reads_back browserJSON_text_nonempty
  by (rule load_stored_text)

text \<open>
  A text that was not written by \<open>saveToLocalStorage\<close> need not survive either: white
  space around the brackets is lost.
\<close>

lemma save_after_load_normalises:
  "loadFromLocalStorage browserJSON (emptyStore\<lparr>items := [(''questions'', ''[ ]'')]\<rparr>) = Inr []
   \<and> saveToLocalStorage browserJSON [] (emptyStore\<lparr>items := [(''questions'', ''[ ]'')]\<rparr>)
       = Inr (emptyStore\<lparr>items := [(''questions'', ''[]'')]\<rparr>)"
  by code_simp

text \<open>
  C8, as the code has it. Let \<open>Q\<close> be a list that \<open>JSON.parse\<close> reads back from the text that
  \<open>JSON.stringify\<close> prints for it, this text not being empty. Whenever saving \<open>Q\<close>
  succeeds, loading from the resulting store returns \<open>Q\<close>. And on a store that holds
  the text of \<open>Q\<close> under the key, loading returns \<open>Q\<close>, and saving what was loaded
  leaves the store exactly as it was.
\<close>

theorem save_load_roundtrip:
  assumes "JSON_parse rt (JSON_stringify rt Q) = Inr Q" and "JSON_stringify rt Q \<noteq> []"
  shows "(\<forall>st st'. saveToLocalStorage rt Q st = Inr st' \<longrightarrow> loadFromLocalStorage rt st' = Inr Q)
       \<and> (\<forall>st. getItem ''questions'' st = Some (JSON_stringify rt Q) \<longrightarrow>
             loadFromLocalStorage rt st = Inr Q
           \<and> (\<forall>st'. saveToLocalStorage rt Q st = Inr st' \<longrightarrow> st' = st))"
  using assms by (blast intro: load_stored_text stored_after_save save_stored_text)

theorem save_load_roundtrip_witness:
  "JSON_parse browserJSON (JSON_stringify browserJSON [nameQuestion, ageQuestion])
     = Inr [nameQuestion, ageQuestion]
   \<and> JSON_stringify browserJSON [nameQuestion, ageQuestion] \<noteq> []
   \<and> saveToLocalStorage browserJSON [nameQuestion, ageQuestion] emptyStore
       = Inr (emptyStore\<lparr>items :=
                [(''questions'', JSON_stringify browserJSON [nameQuestion, ageQuestion])]\<rparr>)
   \<and> loadFromLocalStorage browserJSON
         (emptyStore\<lparr>items :=
            [(''questions'', JSON_stringify browserJSON [nameQuestion, ageQuestion])]\<rparr>)
       = Inr [nameQuestion, ageQuestion]"
proof -
  let ?Q = "[nameQuestion, ageQuestion]"
  let ?st = "emptyStore\<lparr>items := [(''questions'', JSON_stringify browserJSON ?Q)]\<rparr>"
  have h1: "JSON_parse browserJSON (JSON_stringify browserJSON ?Q) = Inr ?Q"
    by (rule browserJSON_reads_back)
  have h2: "JSON_stringify browserJSON ?Q \<noteq> []"
    by (rule browserJSON_text_nonempty)
  have s: "saveToLocalStorage browserJSON ?Q emptyStore = Inr ?st" by code_simp
  from save_load_roundtrip [OF h1 h2] s
  have "loadFromLocalStorage browserJSON ?st = Inr ?Q" by blast
  with h1 h2 s show ?thesis by blast
qed

end
